theory Spec2Isabelle
  imports
    Main
    "HOL-Library.AList"
    "HOL-Library.Char_ord"
    "HOL-Library.List_Lexorder"
    "HOL-Library.Product_Lexorder"
    "HOL-Library.Multiset"
begin

section \<open>Flow log parser (src/flow_log_parser.py)\<close>

text \<open>
  The program is one class, \<open>FlowParser\<close>, and a \<open>main\<close> function. The class keeps three
  dictionaries; its methods read two text files line by line and write one. The embedding
  below follows the source method by method:
  \<^item> Python exceptions are values of \<open>py_error\<close>; a method that can raise returns a sum
    (\<open>Inl\<close> the exception) or, when it mutates the object before raising, the object
    together with an optional exception;
  \<^item> \<open>print\<close> appends to a list of printed lines, returned with the result;
  \<^item> a dictionary is an association list in insertion order, read with \<open>map_of\<close> and
    written with \<open>AList.update\<close> (replace in place, else append), as Python's \<open>dict\<close> is;
  \<^item> a text file opened with \<open>encoding='ascii'\<close> and iterated is a list of events: each
    iteration step either delivers a line or raises \<open>UnicodeDecodeError\<close>.
\<close>

subsection \<open>Exceptions\<close>

datatype py_error =
    ValueError string
  | IndexError
  | UnicodeDecodeError
  | UnicodeEncodeError
  | StopIteration

text \<open>\<open>str(e)\<close>, as \<open>main\<close> prints it: the message of the exception, empty for \<open>StopIteration()\<close>.\<close>

fun str_error :: "py_error \<Rightarrow> string" where
  "str_error (ValueError m) = m"
| "str_error IndexError = ''list index out of range''"
| "str_error UnicodeDecodeError = ''ordinal not in range(128)''"
| "str_error UnicodeEncodeError = ''ordinal not in range(128)''"
| "str_error StopIteration = []"

subsection \<open>Built-in string operations\<close>

text \<open>
  \<open>str.strip()\<close> and \<open>str.split()\<close> treat as whitespace the characters for which
  \<open>str.isspace\<close> holds; among the 7-bit characters these are tab, line feed, vertical tab,
  form feed, carriage return, the four separators 0x1C to 0x1F, and space.
\<close>

definition py_isspace :: "char \<Rightarrow> bool" where
  "py_isspace c \<longleftrightarrow>
     c \<in> set [CHR 0x09, CHR 0x0A, CHR 0x0B, CHR 0x0C, CHR 0x0D,
              CHR 0x1C, CHR 0x1D, CHR 0x1E, CHR 0x1F, CHR 0x20]"

definition rstrip_with :: "(char \<Rightarrow> bool) \<Rightarrow> string \<Rightarrow> string" where
  "rstrip_with P s = rev (dropWhile P (rev s))"

definition strip :: "string \<Rightarrow> string" where
  "strip s = dropWhile py_isspace (rstrip_with py_isspace s)"

text \<open>
  \<open>s.split()\<close> without a separator: the maximal runs of non-whitespace characters, in
  order; no empty field is ever produced.
\<close>

fun split_ws :: "string \<Rightarrow> string list" where
  "split_ws [] = []"
| "split_ws (c # cs) =
     (if py_isspace c then split_ws cs
      else (case cs of
              [] \<Rightarrow> [[c]]
            | d # _ \<Rightarrow>
                if py_isspace d then [c] # split_ws cs
                else (case split_ws cs of
                        [] \<Rightarrow> [[c]]
                      | t # ts \<Rightarrow> (c # t) # ts)))"

text \<open>
  \<open>s.split(sep)\<close> with a one-character separator: every occurrence of the separator
  ends a field, so \<open>n\<close> separators give \<open>n + 1\<close> fields, empty ones included.
\<close>

fun split_on :: "char \<Rightarrow> string \<Rightarrow> string list" where
  "split_on sep [] = [[]]"
| "split_on sep (c # cs) =
     (if c = sep then [] # split_on sep cs
      else (case split_on sep cs of
              [] \<Rightarrow> [[c]]
            | t # ts \<Rightarrow> (c # t) # ts))"

text \<open>\<open>str.lower()\<close> on 7-bit text: the letters A to Z move to a to z.\<close>

definition lower_char :: "char \<Rightarrow> char" where
  "lower_char c = (if CHR ''A'' \<le> c \<and> c \<le> CHR ''Z'' then char_of (of_char c + (32::nat)) else c)"

definition lower :: "string \<Rightarrow> string" where
  "lower s = map lower_char s"

subsection \<open>\<open>int(str)\<close> and \<open>str(int)\<close>\<close>

text \<open>
  \<open>int(s)\<close> for a 7-bit string, base 10: whitespace of the C locale (0x09 to 0x0D and space)
  is dropped at both ends, then comes an optional sign, then decimal digits, where a single
  underscore may stand between two digits. Anything else raises \<open>ValueError\<close>, and so does a
  literal of more than \<open>int_max_str_digits\<close> digits (the interpreter's default limit for
  the conversion between \<open>str\<close> and \<open>int\<close>).
\<close>

definition c_isspace :: "char \<Rightarrow> bool" where
  "c_isspace c \<longleftrightarrow> c \<in> set [CHR 0x09, CHR 0x0A, CHR 0x0B, CHR 0x0C, CHR 0x0D, CHR 0x20]"

definition is_digit :: "char \<Rightarrow> bool" where
  "is_digit c \<longleftrightarrow> CHR ''0'' \<le> c \<and> c \<le> CHR ''9''"

definition digit_val :: "char \<Rightarrow> nat" where
  "digit_val c = of_char c - 48"

fun digits_ok :: "string \<Rightarrow> bool" where
  "digits_ok [] = False"
| "digits_ok [c] = is_digit c"
| "digits_ok (c # d # r) =
     (is_digit c \<and> (if d = CHR ''_'' then digits_ok r else digits_ok (d # r)))"

definition digits_value :: "string \<Rightarrow> int" where
  "digits_value ds = foldl (\<lambda>a c. 10 * a + int (digit_val c)) 0 ds"

definition int_max_str_digits :: nat where
  "int_max_str_digits = 4300"

definition invalid_literal :: py_error where
  "invalid_literal = ValueError ''invalid literal for int() with base 10''"

definition py_int :: "string \<Rightarrow> py_error + int" where
  "py_int s =
     (let t = dropWhile c_isspace (rstrip_with c_isspace s);
          neg = (case t of [] \<Rightarrow> False | c # _ \<Rightarrow> c = CHR ''-'');
          body = (case t of [] \<Rightarrow> [] | c # r \<Rightarrow> if c = CHR ''-'' \<or> c = CHR ''+'' then r else t);
          ds = filter (\<lambda>c. c \<noteq> CHR ''_'') body
      in if \<not> digits_ok body then Inl invalid_literal
         else if int_max_str_digits < length ds
           then Inl (ValueError ''Exceeds the limit (4300 digits) for integer string conversion'')
         else Inr (if neg then - digits_value ds else digits_value ds))"

text \<open>\<open>str(n)\<close>, which the f-strings call: decimal digits, most significant first, a minus
  sign for a negative number. (The interpreter's limit applies to this direction too, but
  an integer that \<open>int\<close> has returned, or a count of lines, never exceeds it.)
  \<open>str_digits\<close> is used on non-negative numbers only.\<close>

function str_digits :: "int \<Rightarrow> string" where
  "str_digits n =
     (if n < 10 then [char_of (48 + nat n)]
      else str_digits (n div 10) @ [char_of (48 + nat (n mod 10))])"
  by pat_completeness auto
termination
  by (relation "measure nat") auto

declare str_digits.simps [simp del]

definition str_int :: "int \<Rightarrow> string" where
  "str_int i = (if i < 0 then CHR ''-'' # str_digits (- i) else str_digits i)"

subsection \<open>Dictionaries\<close>

type_synonym ('k, 'v) dict = "('k \<times> 'v) list"

text \<open>\<open>d.get(k, default)\<close> and \<open>d[k] = v\<close>.\<close>

definition dict_get :: "('k, 'v) dict \<Rightarrow> 'k \<Rightarrow> 'v \<Rightarrow> 'v" where
  "dict_get d k dflt = (case map_of d k of None \<Rightarrow> dflt | Some v \<Rightarrow> v)"

definition dict_set :: "('k, 'v) dict \<Rightarrow> 'k \<Rightarrow> 'v \<Rightarrow> ('k, 'v) dict" where
  "dict_set d k v = AList.update k v d"

subsection \<open>\<open>FlowParser._parse_line\<close>\<close>

text \<open>\<open>fields[i]\<close> for a non-negative index: \<open>IndexError\<close> beyond the end.\<close>

definition py_index :: "'a list \<Rightarrow> nat \<Rightarrow> py_error + 'a" where
  "py_index xs i = (if i < length xs then Inr (xs ! i) else Inl IndexError)"

text \<open>\<open>proto_map.get(f, f"proto_{f}")\<close> with the literal dictionary of the source.\<close>

definition proto_map :: "(string, string) dict" where
  "proto_map = [(''6'', ''tcp''), (''17'', ''udp''), (''1'', ''icmp''), (''50'', ''esp''), (''51'', ''ah'')]"

definition protocol_of :: "string \<Rightarrow> string" where
  "protocol_of f = dict_get proto_map f (''proto_'' @ f)"

text \<open>The body of the \<open>try\<close> block: \<open>Inr None\<close> is the explicit \<open>return None\<close>.\<close>

definition parse_line_body :: "string \<Rightarrow> py_error + (int \<times> string) option" where
  "parse_line_body line =
     (let fields = split_ws (strip line) in
      if length fields < 14 then Inr None
      else (case py_index fields 0 of
              Inl e \<Rightarrow> Inl e
            | Inr f0 \<Rightarrow>
                if f0 \<noteq> ''2'' then Inr None
                else (case py_index fields 6 of
                        Inl e \<Rightarrow> Inl e
                      | Inr f6 \<Rightarrow>
                          (case py_int f6 of
                             Inl e \<Rightarrow> Inl e
                           | Inr dst_port \<Rightarrow>
                               (case py_index fields 7 of
                                  Inl e \<Rightarrow> Inl e
                                | Inr f7 \<Rightarrow> Inr (Some (dst_port, protocol_of f7)))))))"

text \<open>\<open>except (ValueError, IndexError): return None\<close>; any other exception would leave
  the method.\<close>

definition parse_line :: "string \<Rightarrow> py_error + (int \<times> string) option" where
  "parse_line line =
     (case parse_line_body line of
        Inl (ValueError m) \<Rightarrow> Inr None
      | Inl IndexError \<Rightarrow> Inr None
      | Inl e \<Rightarrow> Inl e
      | Inr r \<Rightarrow> Inr r)"

subsection \<open>Text files\<close>

text \<open>
  Iterating over a file opened with \<open>encoding='ascii'\<close> delivers its lines one by one and
  raises \<open>UnicodeDecodeError\<close> at the step that has to decode a byte above 127. A file is
  its size in bytes (what \<open>os.path.getsize\<close> returns) and the sequence of these steps; the
  events after a \<open>DecodeFailure\<close> are never reached. Which lines are delivered before the
  failure depends on the decoder's buffering: those that end in a block read before the
  block with the offending byte. Errors of the operating system (a missing file, a
  directory) are outside the model.
\<close>

datatype line_event = Line string | DecodeFailure

record text_file =
  fsize :: nat
  flines :: "line_event list"

subsection \<open>The \<open>FlowParser\<close> object\<close>

type_synonym lookup = "(int \<times> string, string) dict"
type_synonym counts = "(string, int) dict"

record FlowParser =
  lookup_dict :: lookup
  tag_count :: counts
  traffic_count :: counts

subsection \<open>\<open>FlowParser._load_lookups\<close>\<close>

text \<open>\<open>port, proto, tag = fields\<close>: \<open>ValueError\<close> unless there are exactly three values.\<close>

definition unpack3 :: "string list \<Rightarrow> py_error + (string \<times> string \<times> string)" where
  "unpack3 xs =
     (if length xs = 3 then Inr (xs ! 0, xs ! 1, xs ! 2)
      else if length xs < 3 then Inl (ValueError ''not enough values to unpack (expected 3)'')
      else Inl (ValueError ''too many values to unpack (expected 3)''))"

text \<open>The body of the inner \<open>try\<close> block, up to and including the store into the
  dictionary.\<close>

definition load_entry :: "string \<Rightarrow> lookup \<Rightarrow> py_error + lookup" where
  "load_entry line d =
     (case unpack3 (split_on CHR '','' (strip line)) of
        Inl e \<Rightarrow> Inl e
      | Inr (port, proto, tag) \<Rightarrow>
          (case py_int port of
             Inl e \<Rightarrow> Inl e
           | Inr p \<Rightarrow> Inr (dict_set d (p, lower proto) tag)))"

text \<open>The local state of the loop: the counter, the dictionary being filled, and what
  has been printed.\<close>

record loader =
  num_mappings :: nat
  table :: lookup
  printed :: "string list"

definition limit_warning :: string where
  "limit_warning = ''Warning: Reached 10000 mapping limit''"

text \<open>The \<open>for line in f\<close> loop. The first component of the result is the exception that
  left the loop, if any.\<close>

fun load_loop :: "line_event list \<Rightarrow> loader \<Rightarrow> py_error option \<times> loader" where
  "load_loop [] st = (None, st)"
| "load_loop (DecodeFailure # rest) st = (Some UnicodeDecodeError, st)"
| "load_loop (Line line # rest) st =
     (if 10000 \<le> num_mappings st
        then (None, st\<lparr>printed := printed st @ [limit_warning]\<rparr>)
      else if strip line = [] then load_loop rest st
      else (case load_entry line (table st) of
              Inr d \<Rightarrow> load_loop rest (st\<lparr>table := d, num_mappings := num_mappings st + 1\<rparr>)
            | Inl (ValueError m) \<Rightarrow>
                load_loop rest (st\<lparr>printed := printed st @ [''Skipping bad line: '' @ strip line]\<rparr>)
            | Inl e \<Rightarrow> (Some e, st)))"

definition loader0 :: loader where
  "loader0 = \<lparr>num_mappings = 0, table = [], printed = []\<rparr>"

definition lookup_not_ascii :: py_error where
  "lookup_not_ascii = ValueError ''Lookup file must be ASCII text''"

text \<open>The whole method: \<open>next(f)\<close> skips the header and raises \<open>StopIteration\<close> on a file
  without lines, which the \<open>except UnicodeDecodeError\<close> clause does not catch.\<close>

definition load_lookups :: "line_event list \<Rightarrow> py_error option \<times> loader" where
  "load_lookups f =
     (case f of
        [] \<Rightarrow> (Some StopIteration, loader0)
      | DecodeFailure # rest \<Rightarrow> (Some lookup_not_ascii, loader0)
      | Line header # rest \<Rightarrow>
          (case load_loop rest loader0 of
             (Some UnicodeDecodeError, st) \<Rightarrow> (Some lookup_not_ascii, st)
           | r \<Rightarrow> r))"

text \<open>\<open>FlowParser(lookup_path)\<close>: the object exists only if \<open>_load_lookups\<close> returns.\<close>

definition FlowParser_init :: "line_event list \<Rightarrow> (py_error + FlowParser) \<times> string list" where
  "FlowParser_init f =
     (case load_lookups f of
        (Some e, st) \<Rightarrow> (Inl e, printed st)
      | (None, st) \<Rightarrow>
          (Inr \<lparr>lookup_dict = table st, tag_count = [], traffic_count = []\<rparr>, printed st))"

subsection \<open>\<open>FlowParser.process_logs\<close>\<close>

text \<open>The body of the loop for one line. A tuple is always true, so \<open>if result:\<close> tests
  for \<open>None\<close> only.\<close>

definition process_line :: "FlowParser \<Rightarrow> string \<Rightarrow> py_error + FlowParser" where
  "process_line p line =
     (case parse_line line of
        Inl e \<Rightarrow> Inl e
      | Inr None \<Rightarrow> Inr p
      | Inr (Some (port, proto)) \<Rightarrow>
          (let traffic_key = str_int port @ '','' @ proto;
               tag = dict_get (lookup_dict p) (port, proto) ''Untagged''
           in Inr (p\<lparr>traffic_count :=
                       dict_set (traffic_count p) traffic_key
                         (dict_get (traffic_count p) traffic_key 0 + 1),
                     tag_count :=
                       dict_set (tag_count p) tag (dict_get (tag_count p) tag 0 + 1)\<rparr>)))"

text \<open>The loop mutates the object as it goes: when an exception leaves it, the object is
  as the lines processed so far have made it.\<close>

fun process_loop :: "line_event list \<Rightarrow> FlowParser \<Rightarrow> FlowParser \<times> py_error option" where
  "process_loop [] p = (p, None)"
| "process_loop (DecodeFailure # rest) p = (p, Some UnicodeDecodeError)"
| "process_loop (Line line # rest) p =
     (case process_line p line of
        Inl e \<Rightarrow> (p, Some e)
      | Inr p' \<Rightarrow> process_loop rest p')"

definition log_not_ascii :: py_error where
  "log_not_ascii = ValueError ''Log file must be ASCII text''"

definition process_logs :: "FlowParser \<Rightarrow> text_file \<Rightarrow> FlowParser \<times> py_error option" where
  "process_logs p f =
     (if 10 * 1024 * 1024 < fsize f then (p, Some (ValueError ''Log file too large (>10MB)''))
      else (case process_loop (flines f) p of
              (p', Some UnicodeDecodeError) \<Rightarrow> (p', Some log_not_ascii)
            | r \<Rightarrow> r))"

subsection \<open>\<open>FlowParser.write_report\<close>\<close>

definition nl :: string where
  "nl = [CHR 0x0A]"

definition is_ascii :: "string \<Rightarrow> bool" where
  "is_ascii s \<longleftrightarrow> list_all (\<lambda>c. of_char c < (128::nat)) s"

text \<open>A sequence of \<open>f.write(s)\<close> on a file opened with \<open>encoding='ascii'\<close>: each string is
  encoded when it is written, so the strings before the first one that cannot be encoded
  reach the file.\<close>

fun write_all :: "string list \<Rightarrow> string \<Rightarrow> string \<times> py_error option" where
  "write_all [] acc = (acc, None)"
| "write_all (s # ss) acc =
     (if is_ascii s then write_all ss (acc @ s) else (acc, Some UnicodeEncodeError))"

definition report_row :: "string \<times> int \<Rightarrow> string" where
  "report_row kc = fst kc @ '','' @ str_int (snd kc) @ nl"

text \<open>The strings written, in order; \<open>sorted(d.items())\<close> sorts the (key, count) pairs.\<close>

definition report_writes :: "FlowParser \<Rightarrow> string list" where
  "report_writes p =
     [''Tag Counts:'' @ nl, ''Tag,Count'' @ nl]
     @ map report_row (sort (tag_count p))
     @ [nl @ ''Port/Protocol Combination Counts:'' @ nl, ''Port,Protocol,Count'' @ nl]
     @ map report_row (sort (traffic_count p))"

text \<open>The result is the content of the output file and the exception raised, if any.\<close>

definition write_report :: "FlowParser \<Rightarrow> string \<times> py_error option" where
  "write_report p =
     (case write_all (report_writes p) [] of
        (out, Some UnicodeEncodeError) \<Rightarrow> (out, Some (ValueError ''Cannot write non-ASCII characters''))
      | r \<Rightarrow> r)"

subsection \<open>\<open>main\<close>\<close>

text \<open>
  \<open>main\<close> with its three arguments given: the two input files and, as part of the result,
  what the output file holds (\<open>None\<close> when it was never opened). Every exception ends in
  the handler, which prints \<open>Error: <message>\<close> and exits with status 1.
\<close>

record run_result =
  exit_status :: nat
  stdout :: "string list"
  report :: "string option"

definition fail_with :: "string list \<Rightarrow> py_error \<Rightarrow> string option \<Rightarrow> run_result" where
  "fail_with out e rep =
     \<lparr>exit_status = 1, stdout = out @ [''Error: '' @ str_error e], report = rep\<rparr>"

definition main :: "text_file \<Rightarrow> text_file \<Rightarrow> run_result" where
  "main log_file lookup_file =
     (if 10 * 1024 * 1024 < fsize log_file
        then fail_with [] (ValueError ''Flow log file too large'') None
      else if 1 * 1024 * 1024 < fsize lookup_file
        then fail_with [] (ValueError ''Lookup file too large'') None
      else (case FlowParser_init (flines lookup_file) of
              (Inl e, out) \<Rightarrow> fail_with out e None
            | (Inr parser, out) \<Rightarrow>
                (case process_logs parser log_file of
                   (parser', Some e) \<Rightarrow> fail_with out e None
                 | (parser', None) \<Rightarrow>
                     (case write_report parser' of
                        (content, Some e) \<Rightarrow> fail_with out e (Some content)
                      | (content, None) \<Rightarrow>
                          \<lparr>exit_status = 0, stdout = out, report = Some content\<rparr>))))"

subsection \<open>The parser as the specification words it\<close>

text \<open>The fixed protocol table of the specification, with its fallback.\<close>

definition spec_protocol_name :: "string \<Rightarrow> string" where
  "spec_protocol_name v =
     (if v = ''6'' then ''tcp''
      else if v = ''17'' then ''udp''
      else if v = ''1'' then ''icmp''
      else if v = ''50'' then ''esp''
      else if v = ''51'' then ''ah''
      else ''proto_'' @ v)"

text \<open>The specification's parser: split the line itself on runs of whitespace, reject on
  the field count, the version marker or the port, and otherwise return the pair.\<close>

definition spec_parse :: "string \<Rightarrow> (int \<times> string) option" where
  "spec_parse line =
     (let fields = split_ws line in
      if length fields < 14 \<or> fields ! 0 \<noteq> ''2'' then None
      else (case py_int (fields ! 6) of
              Inl e \<Rightarrow> None
            | Inr port \<Rightarrow> Some (port, spec_protocol_name (fields ! 7))))"

subsection \<open>Vocabulary for the aggregation properties\<close>

text \<open>The lines an iteration delivers before it ends or fails.\<close>

fun delivered :: "line_event list \<Rightarrow> string list" where
  "delivered [] = []"
| "delivered (DecodeFailure # rest) = []"
| "delivered (Line line # rest) = line # delivered rest"

text \<open>A line is accepted when \<open>_parse_line\<close> returns a pair.\<close>

definition accepted :: "string \<Rightarrow> bool" where
  "accepted line = (case parse_line line of Inr (Some r) \<Rightarrow> True | _ \<Rightarrow> False)"

text \<open>The sum of the values of a dictionary of counts.\<close>

definition total :: "counts \<Rightarrow> int" where
  "total d = sum_list (map snd d)"

text \<open>Every stored count is at least 1.\<close>

definition positive :: "counts \<Rightarrow> bool" where
  "positive d \<longleftrightarrow> (\<forall>kc\<in>set d. 1 \<le> snd kc)"

text \<open>The tag and the traffic key under which an accepted line is counted, and the number
  of lines of a list counted under a given one.\<close>

definition line_tag :: "lookup \<Rightarrow> string \<Rightarrow> string option" where
  "line_tag d line =
     (case parse_line line of
        Inr (Some (port, proto)) \<Rightarrow> Some (dict_get d (port, proto) ''Untagged'')
      | _ \<Rightarrow> None)"

definition line_key :: "string \<Rightarrow> string option" where
  "line_key line =
     (case parse_line line of
        Inr (Some (port, proto)) \<Rightarrow> Some (str_int port @ '','' @ proto)
      | _ \<Rightarrow> None)"

definition occurrences :: "(string \<Rightarrow> string option) \<Rightarrow> string \<Rightarrow> string list \<Rightarrow> int" where
  "occurrences f x ls = int (length (filter (\<lambda>l. f l = Some x) ls))"

text \<open>The object after one call of \<open>process_logs\<close>, and after a second call on the same
  object with the same file.\<close>

definition first_run :: "FlowParser \<Rightarrow> text_file \<Rightarrow> FlowParser" where
  "first_run p f = fst (process_logs p f)"

definition second_run :: "FlowParser \<Rightarrow> text_file \<Rightarrow> FlowParser" where
  "second_run p f = fst (process_logs (first_run p f) f)"

subsection \<open>Vocabulary for the loader properties\<close>

text \<open>A valid mapping line: not blank, exactly three comma-separated fields after
  trimming, and a first field that \<open>int\<close> accepts.\<close>

definition valid_mapping_line :: "string \<Rightarrow> bool" where
  "valid_mapping_line line \<longleftrightarrow>
     strip line \<noteq> [] \<and> length (split_on CHR '','' (strip line)) = 3
     \<and> \<not> isl (py_int (split_on CHR '','' (strip line) ! 0))"

text \<open>The table after one line: with the line's entry stored, or as before when the
  inner \<open>try\<close> block raises.\<close>

definition store_line :: "string \<Rightarrow> lookup \<Rightarrow> lookup" where
  "store_line line d = (case load_entry line d of Inl e \<Rightarrow> d | Inr d' \<Rightarrow> d')"

subsection \<open>The report as the specification lays it out\<close>

text \<open>The two header lines of the first section, its data rows, a blank line, the two
  header lines of the second section, and its data rows.\<close>

definition report_text :: "(string \<times> int) list \<Rightarrow> (string \<times> int) list \<Rightarrow> string" where
  "report_text tag_rows traffic_rows =
     ''Tag Counts:'' @ nl @ ''Tag,Count'' @ nl
     @ concat (map report_row tag_rows)
     @ nl
     @ ''Port/Protocol Combination Counts:'' @ nl @ ''Port,Protocol,Count'' @ nl
     @ concat (map report_row traffic_rows)"

section \<open>Properties\<close>

subsection \<open>Splitting on whitespace ignores surrounding whitespace\<close>

lemma split_ws_dropWhile: "split_ws (dropWhile py_isspace s) = split_ws s"
  by (induction s) simp_all

lemma split_ws_spaces: "\<forall>c\<in>set w. py_isspace c \<Longrightarrow> split_ws w = []"
  by (induction w) simp_all

lemma split_ws_Cons_Cons:
  "split_ws (c # d # r) =
     (if py_isspace c then split_ws (d # r)
      else if py_isspace d then [c] # split_ws (d # r)
      else (case split_ws (d # r) of [] \<Rightarrow> [[c]] | t # ts \<Rightarrow> (c # t) # ts))"
  by simp

lemma split_ws_append_space:
  assumes "\<forall>c\<in>set w. py_isspace c"
  shows "split_ws (s @ w) = split_ws s"
proof (induction s)
  case Nil
  show ?case using assms by (simp add: split_ws_spaces)
next
  case (Cons c s)
  show ?case
  proof (cases s)
    case Nil
    show ?thesis
    proof (cases w)
      case Nil
      then show ?thesis by simp
    next
      case (Cons d w')
      then have "py_isspace d" "split_ws w = []"
        using assms split_ws_spaces[of w] by auto
      then show ?thesis using \<open>s = []\<close> Cons by simp
    qed
  next
    case (Cons d s')
    have ih: "split_ws (d # (s' @ w)) = split_ws (d # s')"
      using Cons.IH unfolding Cons by (simp only: append_Cons)
    show ?thesis unfolding Cons
      by (simp only: append_Cons split_ws_Cons_Cons ih)
  qed
qed

lemma rstrip_with_decomp: "\<exists>w. (\<forall>c\<in>set w. P c) \<and> s = rstrip_with P s @ w"
proof -
  have "rev s = takeWhile P (rev s) @ dropWhile P (rev s)" by simp
  then have "s = rev (dropWhile P (rev s)) @ rev (takeWhile P (rev s))"
    by (metis rev_append rev_rev_ident)
  moreover have "\<forall>c\<in>set (rev (takeWhile P (rev s))). P c"
    by (auto dest: set_takeWhileD)
  ultimately show ?thesis unfolding rstrip_with_def by blast
qed

lemma split_ws_strip: "split_ws (strip s) = split_ws s"
proof -
  obtain w where w: "\<forall>c\<in>set w. py_isspace c" "s = rstrip_with py_isspace s @ w"
    using rstrip_with_decomp by blast
  have "split_ws (strip s) = split_ws (rstrip_with py_isspace s)"
    by (simp add: strip_def split_ws_dropWhile)
  also have "\<dots> = split_ws (rstrip_with py_isspace s @ w)"
    using w(1) by (simp add: split_ws_append_space)
  finally show ?thesis using w(2) by simp
qed

subsection \<open>The per-line parser\<close>

lemma py_int_error: "py_int s = Inl e \<Longrightarrow> \<exists>m. e = ValueError m"
  by (auto simp: py_int_def Let_def invalid_literal_def split: if_splits)

lemma protocol_of_spec: "protocol_of f = spec_protocol_name f"
  by (simp add: protocol_of_def spec_protocol_name_def dict_get_def proto_map_def)

lemma parse_line_body_short:
  "length (split_ws line) < 14 \<Longrightarrow> parse_line_body line = Inr None"
  by (simp add: parse_line_body_def split_ws_strip)

lemma parse_line_body_long:
  assumes "\<not> length (split_ws line) < 14"
  shows "parse_line_body line =
           (if split_ws line ! 0 \<noteq> ''2'' then Inr None
            else (case py_int (split_ws line ! 6) of
                    Inl e \<Rightarrow> Inl e
                  | Inr port \<Rightarrow> Inr (Some (port, spec_protocol_name (split_ws line ! 7)))))"
proof -
  have "0 < length (split_ws line)" "6 < length (split_ws line)" "7 < length (split_ws line)"
    using assms by auto
  then show ?thesis
    using assms
    by (simp add: parse_line_body_def split_ws_strip py_index_def protocol_of_spec Let_def
             split: sum.splits)
qed

lemma parse_line_spec: "parse_line line = Inr (spec_parse line)"
proof (cases "length (split_ws line) < 14")
  case True
  then show ?thesis
    by (simp add: parse_line_def parse_line_body_short spec_parse_def)
next
  case False
  show ?thesis
  proof (cases "py_int (split_ws line ! 6)")
    case (Inl e)
    then obtain m where "e = ValueError m" using py_int_error by blast
    with Inl False show ?thesis
      by (simp add: parse_line_def parse_line_body_long spec_parse_def)
  next
    case (Inr port)
    with False show ?thesis
      by (simp add: parse_line_def parse_line_body_long spec_parse_def)
  qed
qed

text \<open>
  Claim C2. For every raw text line the parser returns and never raises. With the fields
  being the runs of non-whitespace characters of the line, it returns "not parseable"
  (\<open>None\<close>) exactly when there are fewer than 14 fields, or the first field is not the
  string \<open>2\<close>, or \<open>int\<close> rejects field 6; otherwise it returns the integer value of
  field 6 paired with the protocol name of field 7, which is taken from the table 6 to tcp,
  17 to udp, 1 to icmp, 50 to esp, 51 to ah, and is \<open>proto_\<close> followed by the field for
  every other field.
\<close>

theorem parse_line_contract:
  "parse_line line =
     Inr (let fields = split_ws line in
          if length fields < 14 \<or> fields ! 0 \<noteq> ''2'' \<or> isl (py_int (fields ! 6)) then None
          else Some (projr (py_int (fields ! 6)), spec_protocol_name (fields ! 7)))"
  by (simp add: parse_line_spec spec_parse_def Let_def split: sum.splits)

theorem parse_line_contract_witness:
  "parse_line ''2 123456789012 eni-abc 10.0.0.1 10.0.0.2 443 80 6 10 800 1 2 ACCEPT OK''
     = Inr (Some (80, ''tcp''))
   \<and> parse_line ''2 123456789012 eni-abc 10.0.0.1 10.0.0.2 443 80 47 10 800 1 2 ACCEPT OK''
     = Inr (Some (80, ''proto_47''))
   \<and> parse_line ''2 123456789012 eni-abc 10.0.0.1 10.0.0.2 443 http 6 10 800 1 2 ACCEPT OK''
     = Inr None
   \<and> parse_line ''3 123456789012 eni-abc 10.0.0.1 10.0.0.2 443 80 6 10 800 1 2 ACCEPT OK''
     = Inr None
   \<and> parse_line ''2 123456789012 eni-abc 10.0.0.1 10.0.0.2 443 80 6 10 800 1 2 ACCEPT''
     = Inr None"
proof -
  have f1: "split_ws ''2 123456789012 eni-abc 10.0.0.1 10.0.0.2 443 80 6 10 800 1 2 ACCEPT OK''
    = [''2'', ''123456789012'', ''eni-abc'', ''10.0.0.1'', ''10.0.0.2'', ''443'', ''80'', ''6'',
       ''10'', ''800'', ''1'', ''2'', ''ACCEPT'', ''OK'']"
    by code_simp
  have f2: "split_ws ''2 123456789012 eni-abc 10.0.0.1 10.0.0.2 443 80 47 10 800 1 2 ACCEPT OK''
    = [''2'', ''123456789012'', ''eni-abc'', ''10.0.0.1'', ''10.0.0.2'', ''443'', ''80'', ''47'',
       ''10'', ''800'', ''1'', ''2'', ''ACCEPT'', ''OK'']"
    by code_simp
  have f3: "split_ws ''2 123456789012 eni-abc 10.0.0.1 10.0.0.2 443 http 6 10 800 1 2 ACCEPT OK''
    = [''2'', ''123456789012'', ''eni-abc'', ''10.0.0.1'', ''10.0.0.2'', ''443'', ''http'', ''6'',
       ''10'', ''800'', ''1'', ''2'', ''ACCEPT'', ''OK'']"
    by code_simp
  have f4: "split_ws ''3 123456789012 eni-abc 10.0.0.1 10.0.0.2 443 80 6 10 800 1 2 ACCEPT OK''
    = [''3'', ''123456789012'', ''eni-abc'', ''10.0.0.1'', ''10.0.0.2'', ''443'', ''80'', ''6'',
       ''10'', ''800'', ''1'', ''2'', ''ACCEPT'', ''OK'']"
    by code_simp
  have f5: "split_ws ''2 123456789012 eni-abc 10.0.0.1 10.0.0.2 443 80 6 10 800 1 2 ACCEPT''
    = [''2'', ''123456789012'', ''eni-abc'', ''10.0.0.1'', ''10.0.0.2'', ''443'', ''80'', ''6'',
       ''10'', ''800'', ''1'', ''2'', ''ACCEPT'']"
    by code_simp
  have i1: "py_int ''80'' = Inr 80" by code_simp
  have i2: "isl (py_int ''http'')" by code_simp
  have "parse_line ''2 123456789012 eni-abc 10.0.0.1 10.0.0.2 443 80 6 10 800 1 2 ACCEPT OK''
     = Inr (Some (80, ''tcp''))"
    unfolding parse_line_contract f1 by (simp add: i1 spec_protocol_name_def)
  moreover have "parse_line ''2 123456789012 eni-abc 10.0.0.1 10.0.0.2 443 80 47 10 800 1 2 ACCEPT OK''
     = Inr (Some (80, ''proto_47''))"
    unfolding parse_line_contract f2 by (simp add: i1 spec_protocol_name_def)
  moreover have "parse_line ''2 123456789012 eni-abc 10.0.0.1 10.0.0.2 443 http 6 10 800 1 2 ACCEPT OK''
     = Inr None"
    unfolding parse_line_contract f3 by (simp add: i2)
  moreover have "parse_line ''3 123456789012 eni-abc 10.0.0.1 10.0.0.2 443 80 6 10 800 1 2 ACCEPT OK''
     = Inr None"
    unfolding parse_line_contract f4 by simp
  moreover have "parse_line ''2 123456789012 eni-abc 10.0.0.1 10.0.0.2 443 80 6 10 800 1 2 ACCEPT''
     = Inr None"
    unfolding parse_line_contract f5 by simp
  ultimately show ?thesis by blast
qed

subsection \<open>Dictionaries\<close>

lemma map_of_dict_set: "map_of (dict_set d k v) = (map_of d)(k \<mapsto> v)"
  by (simp add: dict_set_def update_conv')

lemma dict_get_map_of: "dict_get d k dflt = (case map_of d k of None \<Rightarrow> dflt | Some v \<Rightarrow> v)"
  by (simp add: dict_get_def)

lemma total_bump: "total (dict_set d k (dict_get d k 0 + 1)) = total d + 1"
  by (induction d) (auto simp: total_def dict_set_def dict_get_def)

lemma set_dict_set: "set (dict_set d k v) \<subseteq> insert (k, v) (set d)"
  by (induction d) (auto simp: dict_set_def)

lemma dict_get_nonneg:
  assumes "positive d"
  shows "0 \<le> dict_get d k 0"
proof (cases "map_of d k")
  case None
  then show ?thesis by (simp add: dict_get_def)
next
  case (Some c)
  then have "(k, c) \<in> set d" by (rule map_of_SomeD)
  with assms have "1 \<le> c" unfolding positive_def by fastforce
  with Some show ?thesis by (simp add: dict_get_def)
qed

lemma positive_bump:
  assumes "positive d"
  shows "positive (dict_set d k (dict_get d k 0 + 1))"
  unfolding positive_def
proof
  fix kc assume "kc \<in> set (dict_set d k (dict_get d k 0 + 1))"
  then have "kc = (k, dict_get d k 0 + 1) \<or> kc \<in> set d"
    using set_dict_set by fastforce
  then show "1 \<le> snd kc"
    using assms dict_get_nonneg[OF assms, of k] unfolding positive_def by auto
qed

subsection \<open>One line of the log\<close>

lemma process_line_accept:
  assumes "parse_line line = Inr (Some (port, proto))"
  shows "process_line p line =
           Inr (p\<lparr>traffic_count :=
                     dict_set (traffic_count p) (str_int port @ '','' @ proto)
                       (dict_get (traffic_count p) (str_int port @ '','' @ proto) 0 + 1),
                   tag_count :=
                     dict_set (tag_count p) (dict_get (lookup_dict p) (port, proto) ''Untagged'')
                       (dict_get (tag_count p)
                          (dict_get (lookup_dict p) (port, proto) ''Untagged'') 0 + 1)\<rparr>)"
  using assms by (simp add: process_line_def Let_def)

lemma process_line_reject:
  "parse_line line = Inr None \<Longrightarrow> process_line p line = Inr p"
  by (simp add: process_line_def)

lemma parse_line_cases:
  obtains (reject) "parse_line line = Inr None"
        | (accept) port proto where "parse_line line = Inr (Some (port, proto))"
  using parse_line_spec[of line] by (cases "spec_parse line") auto

lemma accepted_iff: "accepted line \<longleftrightarrow> (\<exists>port proto. parse_line line = Inr (Some (port, proto)))"
  by (cases line rule: parse_line_cases) (simp_all add: accepted_def)

text \<open>
  Claim C1. A line that the parser accepts as (port, protocol) adds exactly 1 to the
  traffic count of the key port, comma, protocol (counted from 0 when the key is new),
  whatever the lookup table holds, and exactly 1 to the count of one tag: the lookup
  table's entry for (port, protocol) when there is one, the string \<open>Untagged\<close> otherwise.
  No other count of either dictionary changes, and the lookup table is not touched. A line
  that the parser rejects leaves the whole object as it was.
\<close>

theorem process_line_increments:
  "(parse_line line = Inr (Some (port, proto)) \<longrightarrow>
      (\<exists>p'. process_line p line = Inr p'
         \<and> map_of (traffic_count p') =
             (map_of (traffic_count p))
               (str_int port @ '','' @ proto \<mapsto>
                  (case map_of (traffic_count p) (str_int port @ '','' @ proto) of
                     None \<Rightarrow> 0 | Some c \<Rightarrow> c) + 1)
         \<and> (\<forall>d. \<exists>q. process_line (p\<lparr>lookup_dict := d\<rparr>) line = Inr q
                   \<and> traffic_count q = traffic_count p')
         \<and> (let t = (case map_of (lookup_dict p) (port, proto) of
                       None \<Rightarrow> ''Untagged'' | Some tag \<Rightarrow> tag)
            in map_of (tag_count p') =
                 (map_of (tag_count p))
                   (t \<mapsto> (case map_of (tag_count p) t of None \<Rightarrow> 0 | Some c \<Rightarrow> c) + 1))
         \<and> lookup_dict p' = lookup_dict p))
   \<and> (parse_line line = Inr None \<longrightarrow> process_line p line = Inr p)"
proof (intro conjI impI)
  assume a: "parse_line line = Inr (Some (port, proto))"
  show "\<exists>p'. process_line p line = Inr p'
         \<and> map_of (traffic_count p') =
             (map_of (traffic_count p))
               (str_int port @ '','' @ proto \<mapsto>
                  (case map_of (traffic_count p) (str_int port @ '','' @ proto) of
                     None \<Rightarrow> 0 | Some c \<Rightarrow> c) + 1)
         \<and> (\<forall>d. \<exists>q. process_line (p\<lparr>lookup_dict := d\<rparr>) line = Inr q
                   \<and> traffic_count q = traffic_count p')
         \<and> (let t = (case map_of (lookup_dict p) (port, proto) of
                       None \<Rightarrow> ''Untagged'' | Some tag \<Rightarrow> tag)
            in map_of (tag_count p') =
                 (map_of (tag_count p))
                   (t \<mapsto> (case map_of (tag_count p) t of None \<Rightarrow> 0 | Some c \<Rightarrow> c) + 1))
         \<and> lookup_dict p' = lookup_dict p"
    by (simp add: process_line_accept[OF a] map_of_dict_set dict_get_map_of Let_def)
next
  assume "parse_line line = Inr None"
  then show "process_line p line = Inr p" by (rule process_line_reject)
qed

theorem process_line_increments_witness:
  "parse_line ''2 123456789012 eni-abc 10.0.0.1 10.0.0.2 443 80 6 10 800 1 2 ACCEPT OK''
     = Inr (Some (80, ''tcp''))
   \<and> (\<exists>p'. process_line
              \<lparr>lookup_dict = [((80, ''tcp''), ''web'')], tag_count = [], traffic_count = []\<rparr>
              ''2 123456789012 eni-abc 10.0.0.1 10.0.0.2 443 80 6 10 800 1 2 ACCEPT OK'' = Inr p'
          \<and> map_of (traffic_count p') ''80,tcp'' = Some 1
          \<and> map_of (tag_count p') ''web'' = Some 1
          \<and> map_of (tag_count p') ''Untagged'' = None)
   \<and> parse_line ''hello'' = Inr None
   \<and> process_line
        \<lparr>lookup_dict = [((80, ''tcp''), ''web'')], tag_count = [], traffic_count = []\<rparr> ''hello''
       = Inr \<lparr>lookup_dict = [((80, ''tcp''), ''web'')], tag_count = [], traffic_count = []\<rparr>"
proof -
  have sp: "spec_parse ''2 123456789012 eni-abc 10.0.0.1 10.0.0.2 443 80 6 10 800 1 2 ACCEPT OK''
              = Some (80, ''tcp'')"
    by code_simp
  have h: "parse_line ''2 123456789012 eni-abc 10.0.0.1 10.0.0.2 443 80 6 10 800 1 2 ACCEPT OK''
             = Inr (Some (80, ''tcp''))"
    by (simp only: parse_line_spec sp)
  have sn: "spec_parse ''hello'' = None" by code_simp
  have r: "parse_line ''hello'' = Inr None"
    by (simp only: parse_line_spec sn)
  have s: "str_int 80 = ''80''" by code_simp
  note t = process_line_increments
      [of "''2 123456789012 eni-abc 10.0.0.1 10.0.0.2 443 80 6 10 800 1 2 ACCEPT OK''" 80 "''tcp''"
          "\<lparr>lookup_dict = [((80, ''tcp''), ''web'')], tag_count = [], traffic_count = []\<rparr>"]
  note u = process_line_increments
      [of "''hello''" 0 "[]"
          "\<lparr>lookup_dict = [((80, ''tcp''), ''web'')], tag_count = [], traffic_count = []\<rparr>"]
  from t h obtain p' where
    p': "process_line
           \<lparr>lookup_dict = [((80, ''tcp''), ''web'')], tag_count = [], traffic_count = []\<rparr>
           ''2 123456789012 eni-abc 10.0.0.1 10.0.0.2 443 80 6 10 800 1 2 ACCEPT OK'' = Inr p'"
    and tr: "map_of (traffic_count p') = Map.empty(''80,tcp'' \<mapsto> 1)"
    and tg: "map_of (tag_count p') = Map.empty(''web'' \<mapsto> 1)"
    by (auto simp: s)
  have "map_of (traffic_count p') ''80,tcp'' = Some 1" "map_of (tag_count p') ''web'' = Some 1"
    "map_of (tag_count p') ''Untagged'' = None"
    by (simp_all add: tr tg)
  with p' h r u show ?thesis by blast
qed

subsection \<open>The loop over the log\<close>

lemma process_line_total: "\<exists>p'. process_line p line = Inr p'"
  by (cases line rule: parse_line_cases) (simp_all add: process_line_accept process_line_reject)

lemma process_line_lookup: "process_line p line = Inr p' \<Longrightarrow> lookup_dict p' = lookup_dict p"
  by (cases line rule: parse_line_cases)
     (auto simp: process_line_accept process_line_reject)

lemma process_line_totals:
  assumes "process_line p line = Inr p'"
  shows "total (tag_count p') = total (tag_count p) + (if accepted line then 1 else 0)"
    and "total (traffic_count p') = total (traffic_count p) + (if accepted line then 1 else 0)"
  using assms
  by (cases line rule: parse_line_cases;
      auto simp: process_line_accept process_line_reject accepted_def total_bump)+

lemma process_line_positive:
  assumes "process_line p line = Inr p'" and "positive (tag_count p)"
    and "positive (traffic_count p)"
  shows "positive (tag_count p') \<and> positive (traffic_count p')"
proof (cases line rule: parse_line_cases)
  case reject
  with assms show ?thesis by (simp add: process_line_reject)
next
  case (accept port proto)
  have "p' = p\<lparr>traffic_count :=
                     dict_set (traffic_count p) (str_int port @ '','' @ proto)
                       (dict_get (traffic_count p) (str_int port @ '','' @ proto) 0 + 1),
                   tag_count :=
                     dict_set (tag_count p) (dict_get (lookup_dict p) (port, proto) ''Untagged'')
                       (dict_get (tag_count p)
                          (dict_get (lookup_dict p) (port, proto) ''Untagged'') 0 + 1)\<rparr>"
    using assms(1) unfolding process_line_accept[OF accept] by simp
  then show ?thesis
    using positive_bump[OF assms(2), of "dict_get (lookup_dict p) (port, proto) ''Untagged''"]
          positive_bump[OF assms(3), of "str_int port @ '','' @ proto"]
    by simp
qed

lemma process_loop_lines:
  "process_loop (map Line ls @ evs) p = process_loop evs (fst (process_loop (map Line ls) p))"
proof (induction ls arbitrary: p)
  case Nil
  show ?case by simp
next
  case (Cons l ls)
  obtain p' where "process_line p l = Inr p'" using process_line_total by blast
  then show ?case using Cons.IH[of p'] by simp
qed

lemma process_loop_lines_ok: "snd (process_loop (map Line ls) p) = None"
proof (induction ls arbitrary: p)
  case Nil
  show ?case by simp
next
  case (Cons l ls)
  obtain p' where "process_line p l = Inr p'" using process_line_total by blast
  then show ?case using Cons.IH[of p'] by simp
qed

lemma events_split:
  "evs = map Line (delivered evs) \<or> (\<exists>rest. evs = map Line (delivered evs) @ DecodeFailure # rest)"
proof (induction evs)
  case Nil
  show ?case by simp
next
  case (Cons e evs)
  then show ?case by (cases e) auto
qed

lemma events_no_failure: "DecodeFailure \<notin> set evs \<Longrightarrow> evs = map Line (delivered evs)"
proof (induction evs)
  case Nil
  show ?case by simp
next
  case (Cons e evs)
  then show ?case by (cases e) auto
qed

lemma events_failure:
  "DecodeFailure \<in> set evs \<Longrightarrow> \<exists>rest. evs = map Line (delivered evs) @ DecodeFailure # rest"
proof (induction evs)
  case Nil
  then show ?case by simp
next
  case (Cons e evs)
  then show ?case by (cases e) auto
qed

lemma process_loop_state:
  "fst (process_loop evs p) = fst (process_loop (map Line (delivered evs)) p)"
proof -
  consider "evs = map Line (delivered evs)"
    | rest where "evs = map Line (delivered evs) @ DecodeFailure # rest"
    using events_split by blast
  then show ?thesis
  proof cases
    case 1
    then show ?thesis by simp
  next
    case 2
    have "process_loop (map Line (delivered evs) @ DecodeFailure # rest) p
            = process_loop (DecodeFailure # rest) (fst (process_loop (map Line (delivered evs)) p))"
      by (rule process_loop_lines)
    then show ?thesis using 2 by simp
  qed
qed

lemma process_loop_outcome:
  "snd (process_loop evs p) = (if DecodeFailure \<in> set evs then Some UnicodeDecodeError else None)"
proof (cases "DecodeFailure \<in> set evs")
  case True
  then obtain rest where e: "evs = map Line (delivered evs) @ DecodeFailure # rest"
    using events_failure by blast
  have "process_loop (map Line (delivered evs) @ DecodeFailure # rest) p
          = process_loop (DecodeFailure # rest) (fst (process_loop (map Line (delivered evs)) p))"
    by (rule process_loop_lines)
  with e True show ?thesis by simp
next
  case False
  then have "evs = map Line (delivered evs)" by (rule events_no_failure)
  then have "snd (process_loop evs p) = None" using process_loop_lines_ok by metis
  with False show ?thesis by simp
qed

lemma process_lines_invariant:
  "lookup_dict (fst (process_loop (map Line ls) p)) = lookup_dict p
   \<and> total (tag_count (fst (process_loop (map Line ls) p)))
       = total (tag_count p) + int (length (filter accepted ls))
   \<and> total (traffic_count (fst (process_loop (map Line ls) p)))
       = total (traffic_count p) + int (length (filter accepted ls))"
proof (induction ls arbitrary: p)
  case Nil
  show ?case by simp
next
  case (Cons l ls)
  obtain p' where p': "process_line p l = Inr p'" using process_line_total by blast
  show ?case
    using Cons.IH[of p'] process_line_totals[OF p'] process_line_lookup[OF p'] p'
    by simp
qed

lemma process_lines_positive:
  assumes "positive (tag_count p)" and "positive (traffic_count p)"
  shows "positive (tag_count (fst (process_loop (map Line ls) p)))
       \<and> positive (traffic_count (fst (process_loop (map Line ls) p)))"
  using assms
proof (induction ls arbitrary: p)
  case Nil
  then show ?case by simp
next
  case (Cons l ls)
  obtain p' where p': "process_line p l = Inr p'" using process_line_total by blast
  have "positive (tag_count p') \<and> positive (traffic_count p')"
    using p' Cons.prems by (rule process_line_positive)
  then show ?case using Cons.IH[of p'] p' by simp
qed

lemma process_logs_small:
  assumes "fsize f \<le> 10 * 1024 * 1024"
  shows "fst (process_logs p f) = fst (process_loop (map Line (delivered (flines f))) p)"
    and "snd (process_logs p f)
           = (if DecodeFailure \<in> set (flines f) then Some log_not_ascii else None)"
proof -
  let ?r = "process_loop (flines f) p"
  have s: "snd ?r = (if DecodeFailure \<in> set (flines f) then Some UnicodeDecodeError else None)"
    by (rule process_loop_outcome)
  have "process_logs p f =
          (case ?r of (p', Some UnicodeDecodeError) \<Rightarrow> (p', Some log_not_ascii) | r \<Rightarrow> r)"
    using assms by (simp add: process_logs_def)
  then have "process_logs p f =
          (fst ?r, if DecodeFailure \<in> set (flines f) then Some log_not_ascii else None)"
    using s by (cases ?r) (auto split: if_splits)
  then show "fst (process_logs p f) = fst (process_loop (map Line (delivered (flines f))) p)"
    and "snd (process_logs p f)
           = (if DecodeFailure \<in> set (flines f) then Some log_not_ascii else None)"
    using process_loop_state[of "flines f" p] by simp_all
qed

lemma process_line_same:
  assumes "map_of (lookup_dict p1) = map_of (lookup_dict p2)"
    and "tag_count p1 = tag_count p2"
    and "traffic_count p1 = traffic_count p2"
    and "process_line p1 line = Inr q1" and "process_line p2 line = Inr q2"
  shows "map_of (lookup_dict q1) = map_of (lookup_dict q2)
       \<and> tag_count q1 = tag_count q2 \<and> traffic_count q1 = traffic_count q2"
proof (cases line rule: parse_line_cases)
  case reject
  with assms show ?thesis by (simp add: process_line_reject)
next
  case (accept port proto)
  have "dict_get (lookup_dict p1) (port, proto) ''Untagged''
          = dict_get (lookup_dict p2) (port, proto) ''Untagged''"
    using assms(1) by (simp add: dict_get_def)
  then show ?thesis
    using assms unfolding process_line_accept[OF accept] by auto
qed

lemma process_lines_same:
  assumes "map_of (lookup_dict p1) = map_of (lookup_dict p2)"
    and "tag_count p1 = tag_count p2"
    and "traffic_count p1 = traffic_count p2"
  shows "tag_count (fst (process_loop (map Line ls) p1))
           = tag_count (fst (process_loop (map Line ls) p2))
       \<and> traffic_count (fst (process_loop (map Line ls) p1))
           = traffic_count (fst (process_loop (map Line ls) p2))"
  using assms
proof (induction ls arbitrary: p1 p2)
  case Nil
  then show ?case by simp
next
  case (Cons l ls)
  obtain q1 where q1: "process_line p1 l = Inr q1" using process_line_total by blast
  obtain q2 where q2: "process_line p2 l = Inr q2" using process_line_total by blast
  have "map_of (lookup_dict q1) = map_of (lookup_dict q2)
       \<and> tag_count q1 = tag_count q2 \<and> traffic_count q1 = traffic_count q2"
    using Cons.prems q1 q2 by (rule process_line_same)
  then have "tag_count (fst (process_loop (map Line ls) q1))
           = tag_count (fst (process_loop (map Line ls) q2))
       \<and> traffic_count (fst (process_loop (map Line ls) q1))
           = traffic_count (fst (process_loop (map Line ls) q2))"
    using Cons.IH[of q1 q2] by blast
  then show ?case using q1 q2 by simp
qed

subsection \<open>Totals and replay\<close>

text \<open>
  Claim C9. Starting from empty counters, after the loop has run over any sequence of
  reading steps, the values of the tag counts and the values of the traffic counts both
  sum to the number of accepted lines among the lines delivered, and every stored count is
  at least 1. The same holds for \<open>process_logs\<close> on a file within the size limit.
\<close>

theorem counts_balance:
  assumes "tag_count p = []" and "traffic_count p = []"
  shows "total (tag_count (fst (process_loop evs p))) = int (length (filter accepted (delivered evs)))
       \<and> total (traffic_count (fst (process_loop evs p)))
           = int (length (filter accepted (delivered evs)))
       \<and> positive (tag_count (fst (process_loop evs p)))
       \<and> positive (traffic_count (fst (process_loop evs p)))
       \<and> (fsize f \<le> 10 * 1024 * 1024 \<and> flines f = evs \<longrightarrow>
            fst (process_logs p f) = fst (process_loop evs p))"
proof -
  have e: "fst (process_loop evs p) = fst (process_loop (map Line (delivered evs)) p)"
    by (rule process_loop_state)
  have "positive (tag_count p)" "positive (traffic_count p)"
    using assms by (simp_all add: positive_def)
  then have pos: "positive (tag_count (fst (process_loop (map Line (delivered evs)) p)))
       \<and> positive (traffic_count (fst (process_loop (map Line (delivered evs)) p)))"
    by (rule process_lines_positive)
  have "total (tag_count p) = 0" "total (traffic_count p) = 0"
    using assms by (simp_all add: total_def)
  then have tot: "total (tag_count (fst (process_loop (map Line (delivered evs)) p)))
                    = int (length (filter accepted (delivered evs)))
       \<and> total (traffic_count (fst (process_loop (map Line (delivered evs)) p)))
           = int (length (filter accepted (delivered evs)))"
    using process_lines_invariant[of "delivered evs" p] by simp
  have "fsize f \<le> 10 * 1024 * 1024 \<and> flines f = evs \<longrightarrow>
            fst (process_logs p f) = fst (process_loop evs p)"
    using process_logs_small(1)[of f p] e by auto
  with pos tot show ?thesis unfolding e by blast
qed

theorem counts_balance_witness:
  "total (tag_count (fst (process_loop
        [Line ''2 a b c d e 80 6 i j k l m n'', Line ''hello'',
         Line ''2 a b c d e 53 17 i j k l m n'']
        \<lparr>lookup_dict = [((80, ''tcp''), ''web'')], tag_count = [], traffic_count = []\<rparr>))) = 2
   \<and> total (traffic_count (fst (process_loop
        [Line ''2 a b c d e 80 6 i j k l m n'', Line ''hello'',
         Line ''2 a b c d e 53 17 i j k l m n'']
        \<lparr>lookup_dict = [((80, ''tcp''), ''web'')], tag_count = [], traffic_count = []\<rparr>))) = 2
   \<and> positive (tag_count (fst (process_loop
        [Line ''2 a b c d e 80 6 i j k l m n'', Line ''hello'',
         Line ''2 a b c d e 53 17 i j k l m n'']
        \<lparr>lookup_dict = [((80, ''tcp''), ''web'')], tag_count = [], traffic_count = []\<rparr>)))"
proof -
  have a1: "accepted ''2 a b c d e 80 6 i j k l m n''" by code_simp
  have a2: "\<not> accepted ''hello''" by code_simp
  have a3: "accepted ''2 a b c d e 53 17 i j k l m n''" by code_simp
  have n: "int (length (filter accepted (delivered
             [Line ''2 a b c d e 80 6 i j k l m n'', Line ''hello'',
              Line ''2 a b c d e 53 17 i j k l m n'']))) = 2"
    by (simp add: a1 a2 a3)
  have h1: "tag_count \<lparr>lookup_dict = [((80, ''tcp''), ''web'')], tag_count = [],
                        traffic_count = []\<rparr> = []"
    by simp
  have h2: "traffic_count \<lparr>lookup_dict = [((80, ''tcp''), ''web'')], tag_count = [],
                            traffic_count = []\<rparr> = []"
    by simp
  note t = counts_balance[OF h1 h2,
      of "[Line ''2 a b c d e 80 6 i j k l m n'', Line ''hello'',
           Line ''2 a b c d e 53 17 i j k l m n'']", unfolded n]
  from t show ?thesis by blast
qed

subsection \<open>The port is not checked against a range\<close>

text \<open>
  Claim C3, as stated: a line whose field 6 parses as an integer below 0 or above 65535 is
  "not parseable". It is not so: with 70000 in field 6 the parser returns the pair
  (70000, tcp), and with -1 the pair (-1, tcp).
\<close>

theorem port_range_counterexample:
  "py_int ''70000'' = Inr 70000
   \<and> parse_line ''2 123456789012 eni-abc 10.0.0.1 10.0.0.2 443 70000 6 10 800 1 2 ACCEPT OK''
       = Inr (Some (70000, ''tcp''))
   \<and> py_int ''-1'' = Inr (- 1)
   \<and> parse_line ''2 123456789012 eni-abc 10.0.0.1 10.0.0.2 443 -1 6 10 800 1 2 ACCEPT OK''
       = Inr (Some (- 1, ''tcp''))"
proof -
  have "py_int ''70000'' = Inr 70000" by code_simp
  moreover have "spec_parse ''2 123456789012 eni-abc 10.0.0.1 10.0.0.2 443 70000 6 10 800 1 2 ACCEPT OK''
       = Some (70000, ''tcp'')"
    by code_simp
  moreover have "py_int ''-1'' = Inr (- 1)" by code_simp
  moreover have "spec_parse ''2 123456789012 eni-abc 10.0.0.1 10.0.0.2 443 -1 6 10 800 1 2 ACCEPT OK''
       = Some (- 1, ''tcp'')"
    by code_simp
  ultimately show ?thesis by (simp only: parse_line_spec)
qed

text \<open>
  Claim C3, amended. A line with at least 14 fields and first field \<open>2\<close> whose field 6
  parses as an integer is accepted whatever the value of that integer, negative and
  above 65535 included: the parser returns the value with the protocol name, and the
  line adds 1 to the traffic counts and 1 to the tag counts.
\<close>

theorem port_accepted_whatever_value:
  assumes "14 \<le> length (split_ws line)" and "split_ws line ! 0 = ''2''"
    and "py_int (split_ws line ! 6) = Inr port"
  shows "parse_line line = Inr (Some (port, spec_protocol_name (split_ws line ! 7)))
       \<and> (\<exists>p'. process_line p line = Inr p'
              \<and> total (traffic_count p') = total (traffic_count p) + 1
              \<and> total (tag_count p') = total (tag_count p) + 1)"
proof -
  have a: "parse_line line = Inr (Some (port, spec_protocol_name (split_ws line ! 7)))"
    using assms by (simp add: parse_line_spec spec_parse_def)
  show ?thesis
    by (simp add: a process_line_accept[OF a] total_bump)
qed

theorem port_accepted_whatever_value_witness:
  "14 \<le> length (split_ws ''2 a b c d e 70000 6 i j k l m n'')
   \<and> split_ws ''2 a b c d e 70000 6 i j k l m n'' ! 0 = ''2''
   \<and> py_int (split_ws ''2 a b c d e 70000 6 i j k l m n'' ! 6) = Inr 70000
   \<and> parse_line ''2 a b c d e 70000 6 i j k l m n'' = Inr (Some (70000, ''tcp''))
   \<and> (\<exists>p'. process_line \<lparr>lookup_dict = [], tag_count = [], traffic_count = []\<rparr>
               ''2 a b c d e 70000 6 i j k l m n'' = Inr p'
          \<and> total (traffic_count p') = 1 \<and> total (tag_count p') = 1)"
proof -
  have f: "split_ws ''2 a b c d e 70000 6 i j k l m n''
             = [''2'', ''a'', ''b'', ''c'', ''d'', ''e'', ''70000'', ''6'', ''i'', ''j'', ''k'', ''l'',
                ''m'', ''n'']"
    by code_simp
  have i: "py_int ''70000'' = Inr 70000" by code_simp
  have h1: "14 \<le> length (split_ws ''2 a b c d e 70000 6 i j k l m n'')"
    unfolding f by simp
  have h2: "split_ws ''2 a b c d e 70000 6 i j k l m n'' ! 0 = ''2''"
    unfolding f by simp
  have h3: "py_int (split_ws ''2 a b c d e 70000 6 i j k l m n'' ! 6) = Inr 70000"
    unfolding f by (simp add: i)
  have s: "spec_protocol_name (split_ws ''2 a b c d e 70000 6 i j k l m n'' ! 7) = ''tcp''"
    unfolding f by (simp add: spec_protocol_name_def)
  have z: "total (traffic_count \<lparr>lookup_dict = [], tag_count = [], traffic_count = []\<rparr>) + 1 = 1"
    "total (tag_count \<lparr>lookup_dict = [], tag_count = [], traffic_count = []\<rparr>) + 1 = 1"
    by (simp_all add: total_def)
  note t = port_accepted_whatever_value[OF h1 h2 h3,
      of "\<lparr>lookup_dict = [], tag_count = [], traffic_count = []\<rparr>", unfolded s z]
  from t h1 h2 h3 show ?thesis by blast
qed

subsection \<open>A decode failure in the log\<close>

lemma process_logs_eval:
  assumes "fsize f \<le> 10 * 1024 * 1024"
  shows "process_logs p f =
           (fst (process_loop (flines f) p),
            case snd (process_loop (flines f) p) of
              None \<Rightarrow> None
            | Some UnicodeDecodeError \<Rightarrow> Some log_not_ascii
            | Some e \<Rightarrow> Some e)"
  using assms
  by (cases "process_loop (flines f) p")
     (auto simp: process_logs_def split: option.splits py_error.splits)

lemma main_log_failure:
  assumes "DecodeFailure \<in> set (flines log_file)"
  shows "exit_status (main log_file lookup_file) = 1 \<and> report (main log_file lookup_file) = None"
proof (cases "fsize log_file \<le> 10 * 1024 * 1024")
  case False
  then show ?thesis by (simp add: main_def fail_with_def)
next
  case True
  have s: "\<And>q. snd (process_logs q log_file) = Some log_not_ascii"
    using process_logs_small(2)[OF True] assms by simp
  show ?thesis
  proof (cases "FlowParser_init (flines lookup_file)")
    case (Pair r out)
    show ?thesis
    proof (cases r)
      case (Inl e)
      with Pair show ?thesis by (simp add: main_def fail_with_def)
    next
      case (Inr q)
      obtain q' where "process_logs q log_file = (q', Some log_not_ascii)"
        using s[of q] by (cases "process_logs q log_file") auto
      with Pair Inr show ?thesis by (simp add: main_def fail_with_def)
    qed
  qed
qed

text \<open>
  Claim C4, as stated: when a decode failure occurs in the log, the counters are left as
  they were before the run. They are not: a log that delivers one accepted line and then
  fails to decode makes \<open>process_logs\<close> raise, and the object, whose counters were empty,
  now counts that line. (The file is larger than the decoder's read buffer, the first
  line lies in the first block and the offending byte in a later one.)
\<close>

theorem decode_failure_counterexample:
  "DecodeFailure \<in> set (flines \<lparr>fsize = 20000,
        flines = [Line ''2 a b c d e 80 6 i j k l m n\<newline>'', DecodeFailure]\<rparr>)
   \<and> process_logs \<lparr>lookup_dict = [], tag_count = [], traffic_count = []\<rparr>
        \<lparr>fsize = 20000, flines = [Line ''2 a b c d e 80 6 i j k l m n\<newline>'', DecodeFailure]\<rparr>
       = (\<lparr>lookup_dict = [], tag_count = [(''Untagged'', 1)], traffic_count = [(''80,tcp'', 1)]\<rparr>,
          Some (ValueError ''Log file must be ASCII text''))"
proof -
  have l: "process_loop [Line ''2 a b c d e 80 6 i j k l m n\<newline>'', DecodeFailure]
             \<lparr>lookup_dict = [], tag_count = [], traffic_count = []\<rparr>
       = (\<lparr>lookup_dict = [], tag_count = [(''Untagged'', 1)], traffic_count = [(''80,tcp'', 1)]\<rparr>,
          Some UnicodeDecodeError)"
    by code_simp
  have sz: "fsize \<lparr>fsize = 20000,
        flines = [Line ''2 a b c d e 80 6 i j k l m n\<newline>'', DecodeFailure]\<rparr> \<le> 10 * 1024 * 1024"
    by simp
  have fl: "flines \<lparr>fsize = 20000,
        flines = [Line ''2 a b c d e 80 6 i j k l m n\<newline>'', DecodeFailure]\<rparr>
       = [Line ''2 a b c d e 80 6 i j k l m n\<newline>'', DecodeFailure]"
    by simp
  have "process_logs \<lparr>lookup_dict = [], tag_count = [], traffic_count = []\<rparr>
        \<lparr>fsize = 20000, flines = [Line ''2 a b c d e 80 6 i j k l m n\<newline>'', DecodeFailure]\<rparr>
       = (\<lparr>lookup_dict = [], tag_count = [(''Untagged'', 1)], traffic_count = [(''80,tcp'', 1)]\<rparr>,
          Some (ValueError ''Log file must be ASCII text''))"
    unfolding process_logs_eval[OF sz] fl l by (simp add: log_not_ascii_def)
  moreover have "DecodeFailure \<in> set (flines \<lparr>fsize = 20000,
        flines = [Line ''2 a b c d e 80 6 i j k l m n\<newline>'', DecodeFailure]\<rparr>)"
    unfolding fl by simp
  ultimately show ?thesis by blast
qed

text \<open>
  Claim C4, amended. When a decode failure occurs in a log within the size limit,
  \<open>process_logs\<close> raises \<open>ValueError\<close> with the message "Log file must be ASCII text", and
  \<open>main\<close> exits with status 1 without writing a report. The counters are not rolled back:
  the object is as the lines delivered before the failure have made it, so its counts
  have grown by the number of accepted lines among them.
\<close>

theorem decode_failure_is_fatal:
  assumes "fsize log_file \<le> 10 * 1024 * 1024" and "DecodeFailure \<in> set (flines log_file)"
  shows "snd (process_logs p log_file) = Some (ValueError ''Log file must be ASCII text'')
       \<and> fst (process_logs p log_file)
           = fst (process_loop (map Line (delivered (flines log_file))) p)
       \<and> total (traffic_count (fst (process_logs p log_file)))
           = total (traffic_count p) + int (length (filter accepted (delivered (flines log_file))))
       \<and> total (tag_count (fst (process_logs p log_file)))
           = total (tag_count p) + int (length (filter accepted (delivered (flines log_file))))
       \<and> exit_status (main log_file lookup_file) = 1
       \<and> report (main log_file lookup_file) = None"
  using process_logs_small[OF assms(1), of p] assms(2)
        process_lines_invariant[of "delivered (flines log_file)" p]
        main_log_failure[OF assms(2), of lookup_file]
  by (simp add: log_not_ascii_def)

theorem decode_failure_is_fatal_witness:
  "fsize \<lparr>fsize = 20000,
        flines = [Line ''2 a b c d e 80 6 i j k l m n\<newline>'', DecodeFailure]\<rparr> \<le> 10 * 1024 * 1024
   \<and> DecodeFailure \<in> set (flines \<lparr>fsize = 20000,
        flines = [Line ''2 a b c d e 80 6 i j k l m n\<newline>'', DecodeFailure]\<rparr>)
   \<and> snd (process_logs \<lparr>lookup_dict = [], tag_count = [], traffic_count = []\<rparr>
        \<lparr>fsize = 20000, flines = [Line ''2 a b c d e 80 6 i j k l m n\<newline>'', DecodeFailure]\<rparr>)
       = Some (ValueError ''Log file must be ASCII text'')
   \<and> total (traffic_count (fst (process_logs \<lparr>lookup_dict = [], tag_count = [], traffic_count = []\<rparr>
        \<lparr>fsize = 20000, flines = [Line ''2 a b c d e 80 6 i j k l m n\<newline>'', DecodeFailure]\<rparr>)))
       = 1
   \<and> report (main \<lparr>fsize = 20000,
        flines = [Line ''2 a b c d e 80 6 i j k l m n\<newline>'', DecodeFailure]\<rparr>
        \<lparr>fsize = 29, flines = [Line ''dstport,protocol,tag\<newline>'', Line ''80,tcp,web'']\<rparr>) = None"
proof -
  have sz: "fsize \<lparr>fsize = 20000,
        flines = [Line ''2 a b c d e 80 6 i j k l m n\<newline>'', DecodeFailure]\<rparr> \<le> 10 * 1024 * 1024"
    by simp
  have fl: "flines \<lparr>fsize = 20000,
        flines = [Line ''2 a b c d e 80 6 i j k l m n\<newline>'', DecodeFailure]\<rparr>
       = [Line ''2 a b c d e 80 6 i j k l m n\<newline>'', DecodeFailure]"
    by simp
  have df: "DecodeFailure \<in> set (flines \<lparr>fsize = 20000,
        flines = [Line ''2 a b c d e 80 6 i j k l m n\<newline>'', DecodeFailure]\<rparr>)"
    unfolding fl by simp
  have a: "accepted ''2 a b c d e 80 6 i j k l m n\<newline>''" by code_simp
  have n: "total (traffic_count \<lparr>lookup_dict = [], tag_count = [], traffic_count = []\<rparr>)
             + int (length (filter accepted (delivered (flines \<lparr>fsize = 20000,
        flines = [Line ''2 a b c d e 80 6 i j k l m n\<newline>'', DecodeFailure]\<rparr>)))) = 1"
    unfolding fl by (simp add: a total_def)
  note t = decode_failure_is_fatal[OF sz df,
      of "\<lparr>lookup_dict = [], tag_count = [], traffic_count = []\<rparr>"
         "\<lparr>fsize = 29, flines = [Line ''dstport,protocol,tag\<newline>'', Line ''80,tcp,web'']\<rparr>",
      unfolded n]
  from t sz df show ?thesis by blast
qed

subsection \<open>A second run on the same object\<close>

lemma dict_get_dict_set:
  "dict_get (dict_set d k v) t dflt = (if t = k then v else dict_get d t dflt)"
  by (simp add: dict_get_def map_of_dict_set)

lemma process_line_count:
  assumes "process_line p line = Inr p'"
  shows "dict_get (tag_count p') t 0
           = dict_get (tag_count p) t 0 + (if line_tag (lookup_dict p) line = Some t then 1 else 0)"
    and "dict_get (traffic_count p') k 0
           = dict_get (traffic_count p) k 0 + (if line_key line = Some k then 1 else 0)"
proof -
  show "dict_get (tag_count p') t 0
           = dict_get (tag_count p) t 0 + (if line_tag (lookup_dict p) line = Some t then 1 else 0)"
  proof (cases line rule: parse_line_cases)
    case reject
    with assms show ?thesis by (simp add: process_line_reject line_tag_def)
  next
    case (accept port proto)
    show ?thesis
      using assms unfolding process_line_accept[OF accept]
      by (auto simp: line_tag_def accept dict_get_dict_set)
  qed
  show "dict_get (traffic_count p') k 0
           = dict_get (traffic_count p) k 0 + (if line_key line = Some k then 1 else 0)"
  proof (cases line rule: parse_line_cases)
    case reject
    with assms show ?thesis by (simp add: process_line_reject line_key_def)
  next
    case (accept port proto)
    show ?thesis
      using assms unfolding process_line_accept[OF accept]
      by (auto simp: line_key_def accept dict_get_dict_set)
  qed
qed

lemma process_lines_count:
  "dict_get (tag_count (fst (process_loop (map Line ls) p))) t 0
     = dict_get (tag_count p) t 0 + occurrences (line_tag (lookup_dict p)) t ls
   \<and> dict_get (traffic_count (fst (process_loop (map Line ls) p))) k 0
     = dict_get (traffic_count p) k 0 + occurrences line_key k ls"
proof (induction ls arbitrary: p)
  case Nil
  show ?case by (simp add: occurrences_def)
next
  case (Cons l ls)
  obtain p' where p': "process_line p l = Inr p'" using process_line_total by blast
  have step: "process_loop (map Line (l # ls)) p = process_loop (map Line ls) p'"
    using p' by simp
  have lk: "lookup_dict p' = lookup_dict p" using p' by (rule process_line_lookup)
  show ?case
    unfolding step
    using Cons.IH[of p'] process_line_count[OF p', of t] process_line_count(2)[OF p', of k]
    by (simp add: lk occurrences_def)
qed

lemma process_lines_rejected:
  "filter accepted ls = [] \<Longrightarrow> fst (process_loop (map Line ls) p) = p"
proof (induction ls)
  case Nil
  show ?case by simp
next
  case (Cons l ls)
  then have "\<not> accepted l" "filter accepted ls = []" by (auto split: if_splits)
  then have "parse_line l = Inr None"
    by (cases l rule: parse_line_cases) (auto simp: accepted_iff)
  then have "process_line p l = Inr p" by (rule process_line_reject)
  with Cons \<open>filter accepted ls = []\<close> show ?case by simp
qed

lemma second_run_small:
  assumes "fsize f \<le> 10 * 1024 * 1024"
  shows "dict_get (tag_count (fst (process_logs p f))) t 0
           = dict_get (tag_count p) t 0
             + occurrences (line_tag (lookup_dict p)) t (delivered (flines f))"
    and "dict_get (tag_count (fst (process_logs (fst (process_logs p f)) f))) t 0
           = dict_get (tag_count p) t 0
             + 2 * occurrences (line_tag (lookup_dict p)) t (delivered (flines f))"
    and "dict_get (traffic_count (fst (process_logs p f))) k 0
           = dict_get (traffic_count p) k 0 + occurrences line_key k (delivered (flines f))"
    and "dict_get (traffic_count (fst (process_logs (fst (process_logs p f)) f))) k 0
           = dict_get (traffic_count p) k 0 + 2 * occurrences line_key k (delivered (flines f))"
    and "total (tag_count (fst (process_logs (fst (process_logs p f)) f)))
           = total (tag_count (fst (process_logs p f)))
             + int (length (filter accepted (delivered (flines f))))"
    and "total (traffic_count (fst (process_logs (fst (process_logs p f)) f)))
           = total (traffic_count (fst (process_logs p f)))
             + int (length (filter accepted (delivered (flines f))))"
proof -
  let ?ds = "delivered (flines f)"
  let ?p1 = "fst (process_loop (map Line ?ds) p)"
  have e1: "fst (process_logs p f) = ?p1" by (rule process_logs_small(1)[OF assms])
  have e2: "fst (process_logs ?p1 f) = fst (process_loop (map Line ?ds) ?p1)"
    by (rule process_logs_small(1)[OF assms])
  have lk: "lookup_dict ?p1 = lookup_dict p" using process_lines_invariant[of ?ds p] by simp
  show "dict_get (tag_count (fst (process_logs p f))) t 0
           = dict_get (tag_count p) t 0 + occurrences (line_tag (lookup_dict p)) t ?ds"
    unfolding e1 using process_lines_count[of ?ds p t k] by simp
  show "dict_get (tag_count (fst (process_logs (fst (process_logs p f)) f))) t 0
           = dict_get (tag_count p) t 0 + 2 * occurrences (line_tag (lookup_dict p)) t ?ds"
    unfolding e1 e2
    using process_lines_count[of ?ds p t k] process_lines_count[of ?ds ?p1 t k]
    by (simp add: lk)
  show "dict_get (traffic_count (fst (process_logs p f))) k 0
           = dict_get (traffic_count p) k 0 + occurrences line_key k ?ds"
    unfolding e1 using process_lines_count[of ?ds p t k] by simp
  show "dict_get (traffic_count (fst (process_logs (fst (process_logs p f)) f))) k 0
           = dict_get (traffic_count p) k 0 + 2 * occurrences line_key k ?ds"
    unfolding e1 e2
    using process_lines_count[of ?ds p t k] process_lines_count[of ?ds ?p1 t k]
    by simp
  show "total (tag_count (fst (process_logs (fst (process_logs p f)) f)))
           = total (tag_count (fst (process_logs p f))) + int (length (filter accepted ?ds))"
    unfolding e1 e2 using process_lines_invariant[of ?ds ?p1] by simp
  show "total (traffic_count (fst (process_logs (fst (process_logs p f)) f)))
           = total (traffic_count (fst (process_logs p f))) + int (length (filter accepted ?ds))"
    unfolding e1 e2 using process_lines_invariant[of ?ds ?p1] by simp
qed

lemma second_run_large:
  assumes "\<not> fsize f \<le> 10 * 1024 * 1024"
  shows "fst (process_logs p f) = p"
  using assms by (simp add: process_logs_def)

lemma first_run_same:
  assumes "map_of (lookup_dict p1) = map_of (lookup_dict p2)"
    and "tag_count p1 = tag_count p2"
    and "traffic_count p1 = traffic_count p2"
  shows "tag_count (first_run p1 f) = tag_count (first_run p2 f)
       \<and> traffic_count (first_run p1 f) = traffic_count (first_run p2 f)"
proof (cases "fsize f \<le> 10 * 1024 * 1024")
  case False
  then show ?thesis using assms by (simp add: first_run_def process_logs_def)
next
  case True
  have "tag_count (fst (process_loop (map Line (delivered (flines f))) p1))
          = tag_count (fst (process_loop (map Line (delivered (flines f))) p2))
      \<and> traffic_count (fst (process_loop (map Line (delivered (flines f))) p1))
          = traffic_count (fst (process_loop (map Line (delivered (flines f))) p2))"
    using assms by (rule process_lines_same)
  then show ?thesis
    by (simp add: first_run_def process_logs_small[OF True])
qed

lemma dict_get_empty: "dict_get [] k dflt = dflt"
  by (simp add: dict_get_def)

text \<open>
  Claim C8, as stated: running the Aggregator twice over the same log and the same lookup
  table yields identical counts. On one object it does not: \<open>process_logs\<close> never resets
  the counters, so the second call counts the one accepted line of this log again.
\<close>

theorem second_run_counterexample:
  "process_logs \<lparr>lookup_dict = [((80, ''tcp''), ''web'')], tag_count = [], traffic_count = []\<rparr>
     \<lparr>fsize = 31, flines = [Line ''2 a b c d e 80 6 i j k l m n\<newline>'']\<rparr>
     = (\<lparr>lookup_dict = [((80, ''tcp''), ''web'')], tag_count = [(''web'', 1)],
          traffic_count = [(''80,tcp'', 1)]\<rparr>, None)
   \<and> process_logs \<lparr>lookup_dict = [((80, ''tcp''), ''web'')], tag_count = [(''web'', 1)],
          traffic_count = [(''80,tcp'', 1)]\<rparr>
     \<lparr>fsize = 31, flines = [Line ''2 a b c d e 80 6 i j k l m n\<newline>'']\<rparr>
     = (\<lparr>lookup_dict = [((80, ''tcp''), ''web'')], tag_count = [(''web'', 2)],
          traffic_count = [(''80,tcp'', 2)]\<rparr>, None)"
proof -
  have sz: "fsize \<lparr>fsize = 31, flines = [Line ''2 a b c d e 80 6 i j k l m n\<newline>'']\<rparr>
              \<le> 10 * 1024 * 1024"
    by simp
  have fl: "flines \<lparr>fsize = 31, flines = [Line ''2 a b c d e 80 6 i j k l m n\<newline>'']\<rparr>
              = [Line ''2 a b c d e 80 6 i j k l m n\<newline>'']"
    by simp
  have l1: "process_loop [Line ''2 a b c d e 80 6 i j k l m n\<newline>'']
              \<lparr>lookup_dict = [((80, ''tcp''), ''web'')], tag_count = [], traffic_count = []\<rparr>
     = (\<lparr>lookup_dict = [((80, ''tcp''), ''web'')], tag_count = [(''web'', 1)],
          traffic_count = [(''80,tcp'', 1)]\<rparr>, None)"
    by code_simp
  have l2: "process_loop [Line ''2 a b c d e 80 6 i j k l m n\<newline>'']
              \<lparr>lookup_dict = [((80, ''tcp''), ''web'')], tag_count = [(''web'', 1)],
                 traffic_count = [(''80,tcp'', 1)]\<rparr>
     = (\<lparr>lookup_dict = [((80, ''tcp''), ''web'')], tag_count = [(''web'', 2)],
          traffic_count = [(''80,tcp'', 2)]\<rparr>, None)"
    by code_simp
  show ?thesis
    unfolding process_logs_eval[OF sz] fl l1 l2 by simp
qed

text \<open>
  Claim C8, amended. A run does not reset the counters. A second run on the same object
  over the same log adds to every tag count and every traffic count what the first run
  added, so from empty counters every count is doubled. The two runs leave identical
  counts when no delivered line is accepted, and different ones when the log is within the
  size limit and some delivered line is accepted. Two runs that start from the same
  counters, with lookup tables that are the same mapping, yield identical counts.
\<close>

theorem second_run_adds_again:
  "dict_get (tag_count (second_run p f)) t 0 - dict_get (tag_count (first_run p f)) t 0
     = dict_get (tag_count (first_run p f)) t 0 - dict_get (tag_count p) t 0
   \<and> dict_get (traffic_count (second_run p f)) k 0 - dict_get (traffic_count (first_run p f)) k 0
     = dict_get (traffic_count (first_run p f)) k 0 - dict_get (traffic_count p) k 0
   \<and> (tag_count p = [] \<longrightarrow>
        dict_get (tag_count (second_run p f)) t 0 = 2 * dict_get (tag_count (first_run p f)) t 0)
   \<and> (traffic_count p = [] \<longrightarrow>
        dict_get (traffic_count (second_run p f)) k 0
          = 2 * dict_get (traffic_count (first_run p f)) k 0)
   \<and> (filter accepted (delivered (flines f)) = [] \<longrightarrow> second_run p f = first_run p f)
   \<and> (fsize f \<le> 10 * 1024 * 1024 \<and> filter accepted (delivered (flines f)) \<noteq> [] \<longrightarrow>
        tag_count (second_run p f) \<noteq> tag_count (first_run p f)
        \<and> traffic_count (second_run p f) \<noteq> traffic_count (first_run p f))
   \<and> (map_of (lookup_dict q) = map_of (lookup_dict p) \<and> tag_count q = tag_count p
        \<and> traffic_count q = traffic_count p \<longrightarrow>
        tag_count (first_run q f) = tag_count (first_run p f)
        \<and> traffic_count (first_run q f) = traffic_count (first_run p f))"
proof -
  have same: "map_of (lookup_dict q) = map_of (lookup_dict p) \<and> tag_count q = tag_count p
        \<and> traffic_count q = traffic_count p \<longrightarrow>
        tag_count (first_run q f) = tag_count (first_run p f)
        \<and> traffic_count (first_run q f) = traffic_count (first_run p f)"
    using first_run_same[of q p f] by blast
  show ?thesis
  proof (cases "fsize f \<le> 10 * 1024 * 1024")
    case False
    have "first_run p f = p" "second_run p f = p"
      using second_run_large[OF False] by (simp_all add: first_run_def second_run_def)
    with False same show ?thesis by (simp add: dict_get_empty)
  next
    case True
    note s1 = second_run_small(1)[OF True, where p = p and t = t]
    note s2 = second_run_small(2)[OF True, where p = p and t = t]
    note s3 = second_run_small(3)[OF True, where p = p and k = k]
    note s4 = second_run_small(4)[OF True, where p = p and k = k]
    note s5 = second_run_small(5)[OF True, where p = p]
    note s6 = second_run_small(6)[OF True, where p = p]
    have rej: "filter accepted (delivered (flines f)) = [] \<longrightarrow> second_run p f = first_run p f"
      unfolding second_run_def first_run_def process_logs_small(1)[OF True]
      by (simp add: process_lines_rejected)
    have "filter accepted (delivered (flines f)) \<noteq> [] \<longrightarrow>
            total (tag_count (second_run p f)) \<noteq> total (tag_count (first_run p f))
            \<and> total (traffic_count (second_run p f)) \<noteq> total (traffic_count (first_run p f))"
      unfolding second_run_def first_run_def using s5 s6 by simp
    then have ne: "filter accepted (delivered (flines f)) \<noteq> [] \<longrightarrow>
            tag_count (second_run p f) \<noteq> tag_count (first_run p f)
            \<and> traffic_count (second_run p f) \<noteq> traffic_count (first_run p f)"
      by auto
    have c1: "dict_get (tag_count (second_run p f)) t 0 - dict_get (tag_count (first_run p f)) t 0
                = dict_get (tag_count (first_run p f)) t 0 - dict_get (tag_count p) t 0"
      unfolding second_run_def first_run_def using s1 s2 by simp
    have c2: "dict_get (traffic_count (second_run p f)) k 0
                  - dict_get (traffic_count (first_run p f)) k 0
                = dict_get (traffic_count (first_run p f)) k 0 - dict_get (traffic_count p) k 0"
      unfolding second_run_def first_run_def using s3 s4 by simp
    have c3: "tag_count p = [] \<longrightarrow>
        dict_get (tag_count (second_run p f)) t 0 = 2 * dict_get (tag_count (first_run p f)) t 0"
      unfolding second_run_def first_run_def using s1 s2 by (simp add: dict_get_empty)
    have c4: "traffic_count p = [] \<longrightarrow>
        dict_get (traffic_count (second_run p f)) k 0
          = 2 * dict_get (traffic_count (first_run p f)) k 0"
      unfolding second_run_def first_run_def using s3 s4 by (simp add: dict_get_empty)
    show ?thesis
      using c1 c2 c3 c4 rej ne same True by blast
  qed
qed

theorem second_run_adds_again_witness:
  "tag_count \<lparr>lookup_dict = [((80, ''tcp''), ''web'')], tag_count = [], traffic_count = []\<rparr> = []
   \<and> dict_get (tag_count (first_run
          \<lparr>lookup_dict = [((80, ''tcp''), ''web'')], tag_count = [], traffic_count = []\<rparr>
          \<lparr>fsize = 31, flines = [Line ''2 a b c d e 80 6 i j k l m n\<newline>'']\<rparr>)) ''web'' 0 = 1
   \<and> dict_get (tag_count (second_run
          \<lparr>lookup_dict = [((80, ''tcp''), ''web'')], tag_count = [], traffic_count = []\<rparr>
          \<lparr>fsize = 31, flines = [Line ''2 a b c d e 80 6 i j k l m n\<newline>'']\<rparr>)) ''web'' 0 = 2
   \<and> tag_count (second_run
          \<lparr>lookup_dict = [((80, ''tcp''), ''web'')], tag_count = [], traffic_count = []\<rparr>
          \<lparr>fsize = 31, flines = [Line ''2 a b c d e 80 6 i j k l m n\<newline>'']\<rparr>)
       \<noteq> tag_count (first_run
          \<lparr>lookup_dict = [((80, ''tcp''), ''web'')], tag_count = [], traffic_count = []\<rparr>
          \<lparr>fsize = 31, flines = [Line ''2 a b c d e 80 6 i j k l m n\<newline>'']\<rparr>)"
proof -
  let ?p = "\<lparr>lookup_dict = [((80, ''tcp''), ''web'')], tag_count = [], traffic_count = []\<rparr>"
  let ?f = "\<lparr>fsize = 31, flines = [Line ''2 a b c d e 80 6 i j k l m n\<newline>'']\<rparr>"
  have h: "tag_count ?p = []" by simp
  have sz: "fsize ?f \<le> 10 * 1024 * 1024" by simp
  have fl: "flines ?f = [Line ''2 a b c d e 80 6 i j k l m n\<newline>'']" by simp
  have a: "accepted ''2 a b c d e 80 6 i j k l m n\<newline>''" by code_simp
  have ne: "filter accepted (delivered (flines ?f)) \<noteq> []"
    unfolding fl by (simp add: a)
  have l1: "process_loop [Line ''2 a b c d e 80 6 i j k l m n\<newline>''] ?p
     = (\<lparr>lookup_dict = [((80, ''tcp''), ''web'')], tag_count = [(''web'', 1)],
          traffic_count = [(''80,tcp'', 1)]\<rparr>, None)"
    by code_simp
  have one: "dict_get (tag_count (first_run ?p ?f)) ''web'' 0 = 1"
    unfolding first_run_def process_logs_eval[OF sz] fl l1 by (simp add: dict_get_def)
  note t = second_run_adds_again[of ?p ?f "''web''" "''80,tcp''" ?p]
  from t h have "dict_get (tag_count (second_run ?p ?f)) ''web'' 0
                   = 2 * dict_get (tag_count (first_run ?p ?f)) ''web'' 0"
    by blast
  then have two: "dict_get (tag_count (second_run ?p ?f)) ''web'' 0 = 2"
    unfolding one by simp
  from t sz ne have "tag_count (second_run ?p ?f) \<noteq> tag_count (first_run ?p ?f)"
    by blast
  with h one two show ?thesis by blast
qed

subsection \<open>An empty lookup file\<close>

text \<open>
  Claim C10. A lookup file without any line makes \<open>_load_lookups\<close> raise
  (\<open>StopIteration\<close>, from skipping the header), so no \<open>FlowParser\<close> object is built, and
  \<open>main\<close> exits with status 1 and writes no report; its result does not depend on what the
  log holds, and with both files within their size limits it prints \<open>Error: \<close> only.
\<close>

theorem empty_lookup_is_fatal:
  assumes "flines lookup_file = []"
  shows "fst (load_lookups (flines lookup_file)) = Some StopIteration
       \<and> FlowParser_init (flines lookup_file) = (Inl StopIteration, [])
       \<and> exit_status (main log_file lookup_file) = 1
       \<and> report (main log_file lookup_file) = None
       \<and> main (log_file\<lparr>flines := evs\<rparr>) lookup_file = main log_file lookup_file
       \<and> (fsize log_file \<le> 10 * 1024 * 1024 \<and> fsize lookup_file \<le> 1 * 1024 * 1024 \<longrightarrow>
            main log_file lookup_file
              = \<lparr>exit_status = 1, stdout = [''Error: ''], report = None\<rparr>)"
  using assms
  by (simp add: load_lookups_def FlowParser_init_def main_def fail_with_def loader0_def)

theorem empty_lookup_is_fatal_witness:
  "flines \<lparr>fsize = 0, flines = []\<rparr> = []
   \<and> FlowParser_init (flines \<lparr>fsize = 0, flines = []\<rparr>) = (Inl StopIteration, [])
   \<and> main \<lparr>fsize = 31, flines = [Line ''2 a b c d e 80 6 i j k l m n\<newline>'']\<rparr>
          \<lparr>fsize = 0, flines = []\<rparr>
       = \<lparr>exit_status = 1, stdout = [''Error: ''], report = None\<rparr>"
proof -
  have h: "flines \<lparr>fsize = 0, flines = []\<rparr> = []" by simp
  have s: "fsize \<lparr>fsize = 31, flines = [Line ''2 a b c d e 80 6 i j k l m n\<newline>'']\<rparr>
             \<le> 10 * 1024 * 1024 \<and> fsize \<lparr>fsize = 0, flines = []\<rparr> \<le> 1 * 1024 * 1024"
    by simp
  from empty_lookup_is_fatal[OF h,
      of "\<lparr>fsize = 31, flines = [Line ''2 a b c d e 80 6 i j k l m n\<newline>'']\<rparr>"]
    h s
  show ?thesis by blast
qed

subsection \<open>Loading the lookup table\<close>

lemma unpack3_error: "unpack3 xs = Inl e \<Longrightarrow> \<exists>m. e = ValueError m"
  by (auto simp: unpack3_def split: if_splits)

lemma load_entry_error: "load_entry line d = Inl e \<Longrightarrow> \<exists>m. e = ValueError m"
  by (auto simp: load_entry_def split: sum.splits dest: unpack3_error py_int_error)

lemma load_entry_valid:
  "valid_mapping_line line \<Longrightarrow> \<exists>d'. load_entry line d = Inr d'"
  by (auto simp: valid_mapping_line_def load_entry_def unpack3_def split: sum.splits)

lemma load_entry_invalid:
  assumes "length (split_on CHR '','' (strip line)) \<noteq> 3
           \<or> isl (py_int (split_on CHR '','' (strip line) ! 0))"
  shows "\<exists>m. load_entry line d = Inl (ValueError m)"
proof -
  have "\<exists>e. load_entry line d = Inl e"
    using assms by (auto simp: load_entry_def unpack3_def split: sum.splits)
  then show ?thesis using load_entry_error by blast
qed

lemma load_loop_blank:
  "num_mappings st < 10000 \<Longrightarrow> strip line = [] \<Longrightarrow>
   load_loop (Line line # rest) st = load_loop rest st"
  by simp

lemma load_loop_bad:
  assumes "num_mappings st < 10000" and "strip line \<noteq> []"
    and "load_entry line (table st) = Inl (ValueError m)"
  shows "load_loop (Line line # rest) st
           = load_loop rest (st\<lparr>printed := printed st @ [''Skipping bad line: '' @ strip line]\<rparr>)"
  using assms by simp

lemma load_loop_good:
  assumes "num_mappings st < 10000" and "strip line \<noteq> []"
    and "load_entry line (table st) = Inr d"
  shows "load_loop (Line line # rest) st
           = load_loop rest (st\<lparr>table := d, num_mappings := num_mappings st + 1\<rparr>)"
  using assms by simp

lemma load_loop_full:
  "10000 \<le> num_mappings st \<Longrightarrow>
   load_loop (Line line # rest) st = (None, st\<lparr>printed := printed st @ [limit_warning]\<rparr>)"
  by simp

lemma load_loop_step_cases:
  obtains (full) "10000 \<le> num_mappings st"
  | (blank) "num_mappings st < 10000" "strip line = []"
  | (bad) m where "num_mappings st < 10000" "strip line \<noteq> []"
      "load_entry line (table st) = Inl (ValueError m)"
  | (good) d where "num_mappings st < 10000" "strip line \<noteq> []"
      "load_entry line (table st) = Inr d"
proof (cases "10000 \<le> num_mappings st")
  case True
  then show ?thesis by (rule full)
next
  case False
  then have n: "num_mappings st < 10000" by simp
  show ?thesis
  proof (cases "strip line = []")
    case True
    with n show ?thesis by (rule blank)
  next
    case False
    show ?thesis
    proof (cases "load_entry line (table st)")
      case (Inl e)
      then obtain m where "e = ValueError m" using load_entry_error by blast
      with Inl n False show ?thesis using bad by blast
    next
      case (Inr d)
      with n False show ?thesis using good by blast
    qed
  qed
qed

lemma load_loop_lines_return: "\<exists>st'. load_loop (map Line ls) st = (None, st')"
proof (induction ls arbitrary: st)
  case Nil
  show ?case by simp
next
  case (Cons l ls)
  show ?case
  proof (cases rule: load_loop_step_cases[where st = st and line = l])
    case full
    show ?thesis unfolding list.map load_loop_full[OF full] by blast
  next
    case blank
    show ?thesis using Cons.IH[of st] unfolding list.map load_loop_blank[OF blank] .
  next
    case (bad m)
    show ?thesis
      using Cons.IH[of "st\<lparr>printed := printed st @ [''Skipping bad line: '' @ strip l]\<rparr>"]
      unfolding list.map load_loop_bad[OF bad] .
  next
    case (good d)
    show ?thesis
      using Cons.IH[of "st\<lparr>table := d, num_mappings := num_mappings st + 1\<rparr>"]
      unfolding list.map load_loop_good[OF good] .
  qed
qed

subsection \<open>The limit of 10000 mappings\<close>

lemma length_dict_set: "length (dict_set d k v) \<le> Suc (length d)"
  by (induction d) (auto simp: dict_set_def)

lemma load_entry_length: "load_entry line d = Inr d' \<Longrightarrow> length d' \<le> length d + 1"
  by (auto simp: load_entry_def length_dict_set split: sum.splits)

lemma load_loop_bound:
  assumes "length (table st) \<le> num_mappings st" and "num_mappings st \<le> 10000"
  shows "length (table (snd (load_loop evs st))) \<le> num_mappings (snd (load_loop evs st))
       \<and> num_mappings (snd (load_loop evs st)) \<le> 10000"
  using assms
proof (induction evs arbitrary: st)
  case Nil
  then show ?case by simp
next
  case (Cons ev evs)
  show ?case
  proof (cases ev)
    case DecodeFailure
    with Cons.prems show ?thesis by simp
  next
    case (Line l)
    show ?thesis
    proof (cases rule: load_loop_step_cases[where st = st and line = l])
      case full
      show ?thesis unfolding Line load_loop_full[OF full] using Cons.prems by simp
    next
      case blank
      show ?thesis unfolding Line load_loop_blank[OF blank]
        using Cons.prems by (rule Cons.IH)
    next
      case (bad m)
      show ?thesis unfolding Line load_loop_bad[OF bad]
        using Cons.prems by (intro Cons.IH) simp_all
    next
      case (good d)
      have "length d \<le> length (table st) + 1" using good(3) by (rule load_entry_length)
      then show ?thesis unfolding Line load_loop_good[OF good]
        using Cons.prems good(1) by (intro Cons.IH) simp_all
    qed
  qed
qed

lemma load_lookups_bound: "length (table (snd (load_lookups evs))) \<le> 10000"
proof (cases evs)
  case Nil
  then show ?thesis by (simp add: load_lookups_def loader0_def)
next
  case (Cons ev rest)
  show ?thesis
  proof (cases ev)
    case DecodeFailure
    with Cons show ?thesis by (simp add: load_lookups_def loader0_def)
  next
    case (Line header)
    have b: "length (table (snd (load_loop rest loader0))) \<le> 10000"
      using load_loop_bound[of loader0 rest] by (simp add: loader0_def)
    have "snd (load_lookups evs) = snd (load_loop rest loader0)"
      unfolding Cons Line
      by (cases "load_loop rest loader0")
         (auto simp: load_lookups_def split: option.splits py_error.splits)
    with b show ?thesis by simp
  qed
qed

lemma store_line_valid:
  "valid_mapping_line line \<Longrightarrow> load_entry line d = Inr (store_line line d)"
  using load_entry_valid[of line d] by (auto simp: store_line_def)

lemma load_valid_lines:
  assumes "\<forall>l\<in>set ls. valid_mapping_line l" and "num_mappings st + length ls \<le> 10000"
  shows "load_loop (map Line ls @ evs) st
           = load_loop evs (st\<lparr>table := fold store_line ls (table st),
                                num_mappings := num_mappings st + length ls\<rparr>)"
  using assms
proof (induction ls arbitrary: st)
  case Nil
  show ?case by simp
next
  case (Cons l ls)
  have v: "valid_mapping_line l" using Cons.prems(1) by simp
  have g: "num_mappings st < 10000" "strip l \<noteq> []"
    "load_entry l (table st) = Inr (store_line l (table st))"
    using Cons.prems(2) v store_line_valid[OF v] by (simp_all add: valid_mapping_line_def)
  have "load_loop (map Line (l # ls) @ evs) st
          = load_loop (map Line ls @ evs)
              (st\<lparr>table := store_line l (table st), num_mappings := num_mappings st + 1\<rparr>)"
    unfolding list.map append_Cons by (rule load_loop_good[OF g])
  also have "\<dots> = load_loop evs
       (st\<lparr>table := store_line l (table st), num_mappings := num_mappings st + 1\<rparr>
          \<lparr>table := fold store_line ls (store_line l (table st)),
           num_mappings := num_mappings st + 1 + length ls\<rparr>)"
    using Cons.IH[of "st\<lparr>table := store_line l (table st),
                         num_mappings := num_mappings st + 1\<rparr>"] Cons.prems
    by simp
  finally show ?case by simp
qed

lemma load_full_file:
  assumes "\<forall>l\<in>set ls. valid_mapping_line l" and "length ls = 10000"
  shows "load_lookups (Line header # map Line ls)
           = (None, \<lparr>num_mappings = 10000, table = fold store_line ls [], printed = []\<rparr>)"
    and "load_lookups (Line header # map Line ls @ Line line # rest)
           = (None, \<lparr>num_mappings = 10000, table = fold store_line ls [],
                      printed = [limit_warning]\<rparr>)"
proof -
  have n: "num_mappings loader0 + length ls \<le> 10000"
    using assms(2) by (simp add: loader0_def)
  have e: "loader0\<lparr>table := fold store_line ls (table loader0),
                    num_mappings := num_mappings loader0 + length ls\<rparr>
             = \<lparr>num_mappings = 10000, table = fold store_line ls [], printed = []\<rparr>"
    using assms(2) by (simp add: loader0_def)
  have "load_loop (map Line ls @ []) loader0
          = load_loop [] \<lparr>num_mappings = 10000, table = fold store_line ls [], printed = []\<rparr>"
    using load_valid_lines[OF assms(1) n, of "[]"] unfolding e .
  then have a: "load_loop (map Line ls) loader0
          = (None, \<lparr>num_mappings = 10000, table = fold store_line ls [], printed = []\<rparr>)"
    by simp
  have "load_loop (map Line ls @ Line line # rest) loader0
          = load_loop (Line line # rest)
              \<lparr>num_mappings = 10000, table = fold store_line ls [], printed = []\<rparr>"
    using load_valid_lines[OF assms(1) n, of "Line line # rest"] unfolding e .
  then have b: "load_loop (map Line ls @ Line line # rest) loader0
          = (None, \<lparr>num_mappings = 10000, table = fold store_line ls [],
                     printed = [limit_warning]\<rparr>)"
    by simp
  show "load_lookups (Line header # map Line ls)
           = (None, \<lparr>num_mappings = 10000, table = fold store_line ls [], printed = []\<rparr>)"
    by (simp add: load_lookups_def a)
  show "load_lookups (Line header # map Line ls @ Line line # rest)
           = (None, \<lparr>num_mappings = 10000, table = fold store_line ls [],
                      printed = [limit_warning]\<rparr>)"
    by (simp add: load_lookups_def b)
qed

lemma fold_store_replicate:
  assumes "store_line l d = d'" and "store_line l d' = d'"
  shows "fold store_line (replicate (Suc n) l) d = d'"
proof (induction n)
  case 0
  show ?case using assms(1) by simp
next
  case (Suc n)
  have "fold store_line (replicate (Suc (Suc n)) l) d
          = store_line l (fold store_line (replicate (Suc n) l) d)"
    unfolding replicate_Suc[of "Suc n"] replicate_append_same[symmetric] by simp
  then show ?case using Suc assms(2) by simp
qed

lemma sample_mapping_line:
  "valid_mapping_line ''80,tcp,web\<newline>''"
  "store_line ''80,tcp,web\<newline>'' [] = [((80, ''tcp''), ''web'')]"
  "store_line ''80,tcp,web\<newline>'' [((80, ''tcp''), ''web'')] = [((80, ''tcp''), ''web'')]"
  by code_simp+

lemma sample_full_table:
  "fold store_line (replicate 10000 ''80,tcp,web\<newline>'') [] = [((80, ''tcp''), ''web'')]"
proof -
  have "(10000::nat) = Suc 9999" by simp
  then show ?thesis
    using fold_store_replicate[OF sample_mapping_line(2) sample_mapping_line(3), of 9999]
    by simp
qed

text \<open>
  Claim C5, as stated: once the running count reaches 10000, loading stops with a warning.
  A lookup file made of a header and exactly 10000 valid mapping lines brings the count to
  10000 and is loaded without any warning: the test is made only when a further line is
  read.
\<close>

theorem limit_warning_counterexample:
  "load_lookups (Line ''dstport,protocol,tag\<newline>''
                  # map Line (replicate 10000 ''80,tcp,web\<newline>''))
     = (None, \<lparr>num_mappings = 10000, table = [((80, ''tcp''), ''web'')], printed = []\<rparr>)"
proof -
  have v: "\<forall>l\<in>set (replicate 10000 ''80,tcp,web\<newline>''). valid_mapping_line l"
    using sample_mapping_line(1) by simp
  have n: "length (replicate 10000 ''80,tcp,web\<newline>'') = 10000" by simp
  show ?thesis
    using load_full_file(1)[OF v n, of "''dstport,protocol,tag\<newline>''"]
    unfolding sample_full_table .
qed

text \<open>
  Claim C5, amended. For every lookup source the table that the loader leaves holds at
  most 10000 mappings. The limit is tested when a line is read: if the count has reached
  10000 and the source delivers a further line, whatever that line is, loading stops with
  the warning, which is no error, the table built so far is returned, and that line and
  everything after it are ignored. So a header, 10000 valid mapping lines and at least one
  more line give the table of the first 10000 lines and the warning; a source that ends
  with its 10000th valid mapping line gives the same table and no warning.
\<close>

theorem mapping_limit:
  "length (table (snd (load_lookups evs))) \<le> 10000
   \<and> (10000 \<le> num_mappings st \<longrightarrow>
        load_loop (Line line # rest) st = (None, st\<lparr>printed := printed st @ [limit_warning]\<rparr>))
   \<and> ((\<forall>l\<in>set ls. valid_mapping_line l) \<and> length ls = 10000 \<longrightarrow>
        load_lookups (Line header # map Line ls @ Line line # rest)
          = (None, \<lparr>num_mappings = 10000, table = fold store_line ls [],
                     printed = [limit_warning]\<rparr>)
        \<and> load_lookups (Line header # map Line ls)
          = (None, \<lparr>num_mappings = 10000, table = fold store_line ls [], printed = []\<rparr>))"
  using load_lookups_bound load_loop_full load_full_file by blast

theorem mapping_limit_witness:
  "valid_mapping_line ''80,tcp,web\<newline>''
   \<and> length (replicate 10000 ''80,tcp,web\<newline>'') = 10000
   \<and> load_lookups (Line ''dstport,protocol,tag\<newline>''
                   # map Line (replicate 10000 ''80,tcp,web\<newline>'')
                     @ Line ''443,tcp,secure\<newline>'' # [Line ''22,tcp,ssh\<newline>''])
       = (None, \<lparr>num_mappings = 10000, table = [((80, ''tcp''), ''web'')],
                  printed = [limit_warning]\<rparr>)"
proof -
  have v: "\<forall>l\<in>set (replicate 10000 ''80,tcp,web\<newline>''). valid_mapping_line l"
    using sample_mapping_line(1) by simp
  have n: "length (replicate 10000 ''80,tcp,web\<newline>'') = 10000" by simp
  note t = mapping_limit[of _ _ "''443,tcp,secure\<newline>''" "[Line ''22,tcp,ssh\<newline>'']"
      "replicate 10000 ''80,tcp,web\<newline>''" "''dstport,protocol,tag\<newline>''",
      unfolded sample_full_table]
  from t v n sample_mapping_line(1) show ?thesis by blast
qed

subsection \<open>Malformed and blank lines of the lookup file\<close>

text \<open>
  Claim C6, as stated: a blank line is skipped silently and a malformed line is skipped
  with its diagnostic, loading going on. Not so once the count has reached 10000: after a
  header and 10000 valid mapping lines, a further blank line is not silent, it brings the
  limit warning; and a further malformed line brings the limit warning instead of its
  diagnostic, and the line after it is never read.
\<close>

theorem blank_line_counterexample:
  "strip '' \<newline>'' = []
   \<and> load_lookups (Line ''dstport,protocol,tag\<newline>''
                   # map Line (replicate 10000 ''80,tcp,web\<newline>''))
       = (None, \<lparr>num_mappings = 10000, table = [((80, ''tcp''), ''web'')], printed = []\<rparr>)
   \<and> load_lookups (Line ''dstport,protocol,tag\<newline>''
                   # map Line (replicate 10000 ''80,tcp,web\<newline>'') @ Line '' \<newline>'' # [])
       = (None, \<lparr>num_mappings = 10000, table = [((80, ''tcp''), ''web'')],
                  printed = [''Warning: Reached 10000 mapping limit'']\<rparr>)
   \<and> split_on CHR '','' (strip ''x,y\<newline>'') = [''x'', ''y'']
   \<and> load_lookups (Line ''dstport,protocol,tag\<newline>''
                   # map Line (replicate 10000 ''80,tcp,web\<newline>'')
                     @ Line ''x,y\<newline>'' # [Line ''22,tcp,ssh\<newline>''])
       = (None, \<lparr>num_mappings = 10000, table = [((80, ''tcp''), ''web'')],
                  printed = [''Warning: Reached 10000 mapping limit'']\<rparr>)"
proof -
  have v: "\<forall>l\<in>set (replicate 10000 ''80,tcp,web\<newline>''). valid_mapping_line l"
    using sample_mapping_line(1) by simp
  have n: "length (replicate 10000 ''80,tcp,web\<newline>'') = 10000" by simp
  have b: "strip '' \<newline>'' = []" by code_simp
  have m: "split_on CHR '','' (strip ''x,y\<newline>'') = [''x'', ''y'']" by code_simp
  note a0 = load_full_file(1)[OF v n, of "''dstport,protocol,tag\<newline>''",
      unfolded sample_full_table]
  note a1 = load_full_file(2)[OF v n, of "''dstport,protocol,tag\<newline>''" "'' \<newline>''" "[]",
      unfolded sample_full_table limit_warning_def]
  note a2 = load_full_file(2)[OF v n, of "''dstport,protocol,tag\<newline>''" "''x,y\<newline>''"
      "[Line ''22,tcp,ssh\<newline>'']", unfolded sample_full_table limit_warning_def]
  from b m a0 a1 a2 show ?thesis by blast
qed

text \<open>
  Claim C6, amended. While the count of accepted mappings is below 10000: a line that is
  not blank and that does not split on commas into exactly three fields, or whose first
  field is rejected by \<open>int\<close>, only adds the diagnostic \<open>Skipping bad line: \<close> with the
  trimmed line to the output, and the loop goes on with the next line, the counter and the
  table being as before; a line that is blank after trimming changes nothing at all, and
  the loop goes on. Once the count has reached 10000, the next line read is not examined,
  blank or malformed as it may be: it brings the limit warning and ends the load. No
  sequence of delivered lines makes the loop or \<open>_load_lookups\<close> raise.
\<close>

theorem malformed_and_blank_lines:
  "(num_mappings st < 10000 \<longrightarrow>
      (strip line \<noteq> []
         \<and> (length (split_on CHR '','' (strip line)) \<noteq> 3
             \<or> isl (py_int (split_on CHR '','' (strip line) ! 0))) \<longrightarrow>
       load_loop (Line line # rest) st
         = load_loop rest (st\<lparr>printed := printed st @ [''Skipping bad line: '' @ strip line]\<rparr>))
      \<and> (strip line = [] \<longrightarrow> load_loop (Line line # rest) st = load_loop rest st))
   \<and> (10000 \<le> num_mappings st \<longrightarrow>
        load_loop (Line line # rest) st
          = (None, st\<lparr>printed := printed st @ [''Warning: Reached 10000 mapping limit'']\<rparr>))
   \<and> (\<exists>st'. load_loop (map Line ls) st = (None, st'))
   \<and> (\<exists>st'. load_lookups (Line header # map Line ls) = (None, st'))"
proof (intro conjI impI)
  assume n: "num_mappings st < 10000"
  assume a: "strip line \<noteq> []
            \<and> (length (split_on CHR '','' (strip line)) \<noteq> 3
                \<or> isl (py_int (split_on CHR '','' (strip line) ! 0)))"
  then obtain m where "load_entry line (table st) = Inl (ValueError m)"
    using load_entry_invalid by blast
  with n a show "load_loop (Line line # rest) st
            = load_loop rest (st\<lparr>printed := printed st @ [''Skipping bad line: '' @ strip line]\<rparr>)"
    using load_loop_bad by blast
next
  assume "num_mappings st < 10000" and "strip line = []"
  then show "load_loop (Line line # rest) st = load_loop rest st"
    by (rule load_loop_blank)
next
  assume "10000 \<le> num_mappings st"
  then show "load_loop (Line line # rest) st
          = (None, st\<lparr>printed := printed st @ [''Warning: Reached 10000 mapping limit'']\<rparr>)"
    using load_loop_full[of st line rest] by (simp only: limit_warning_def)
next
  show "\<exists>st'. load_loop (map Line ls) st = (None, st')"
    by (rule load_loop_lines_return)
next
  obtain st' where "load_loop (map Line ls) loader0 = (None, st')"
    using load_loop_lines_return by blast
  then show "\<exists>st'. load_lookups (Line header # map Line ls) = (None, st')"
    by (simp add: load_lookups_def)
qed

theorem malformed_and_blank_lines_witness:
  "num_mappings loader0 < 10000
   \<and> load_loop (Line ''x,y\<newline>'' # [Line ''80,TCP,web\<newline>'']) loader0
       = load_loop [Line ''80,TCP,web\<newline>'']
           (loader0\<lparr>printed := printed loader0 @ [''Skipping bad line: '' @ strip ''x,y\<newline>'']\<rparr>)
   \<and> load_loop (Line '' \<newline>'' # [Line ''80,TCP,web\<newline>'']) loader0
       = load_loop [Line ''80,TCP,web\<newline>''] loader0
   \<and> load_loop (Line ''http,tcp,web\<newline>'' # [Line ''80,TCP,web\<newline>'']) loader0
       = load_loop [Line ''80,TCP,web\<newline>'']
           (loader0\<lparr>printed := printed loader0
                        @ [''Skipping bad line: '' @ strip ''http,tcp,web\<newline>'']\<rparr>)
   \<and> 10000 \<le> num_mappings (loader0\<lparr>num_mappings := 10000\<rparr>)
   \<and> load_loop (Line '' \<newline>'' # [Line ''80,TCP,web\<newline>'']) (loader0\<lparr>num_mappings := 10000\<rparr>)
       = (None, loader0\<lparr>num_mappings := 10000\<rparr>
                  \<lparr>printed := printed (loader0\<lparr>num_mappings := 10000\<rparr>)
                              @ [''Warning: Reached 10000 mapping limit'']\<rparr>)"
proof -
  have h: "num_mappings loader0 < 10000" by (simp add: loader0_def)
  have g: "10000 \<le> num_mappings (loader0\<lparr>num_mappings := 10000\<rparr>)" by simp
  have s1: "strip ''x,y\<newline>'' = ''x,y''" by code_simp
  have f1: "split_on CHR '','' ''x,y'' = [''x'', ''y'']" by code_simp
  have p1: "strip ''x,y\<newline>'' \<noteq> []
            \<and> (length (split_on CHR '','' (strip ''x,y\<newline>'')) \<noteq> 3
                \<or> isl (py_int (split_on CHR '','' (strip ''x,y\<newline>'') ! 0)))"
    unfolding s1 f1 by simp
  have s2: "strip '' \<newline>'' = []" by code_simp
  have s3: "strip ''http,tcp,web\<newline>'' = ''http,tcp,web''" by code_simp
  have f3: "split_on CHR '','' ''http,tcp,web'' = [''http'', ''tcp'', ''web'']" by code_simp
  have i3: "isl (py_int ''http'')" by code_simp
  have p3: "strip ''http,tcp,web\<newline>'' \<noteq> []
            \<and> (length (split_on CHR '','' (strip ''http,tcp,web\<newline>'')) \<noteq> 3
                \<or> isl (py_int (split_on CHR '','' (strip ''http,tcp,web\<newline>'') ! 0)))"
    unfolding s3 f3 by (simp add: i3)
  note t1 = malformed_and_blank_lines[of loader0 "''x,y\<newline>''" "[Line ''80,TCP,web\<newline>'']"]
  note t2 = malformed_and_blank_lines[of loader0 "'' \<newline>''" "[Line ''80,TCP,web\<newline>'']"]
  note t3 = malformed_and_blank_lines[of loader0 "''http,tcp,web\<newline>''"
                                        "[Line ''80,TCP,web\<newline>'']"]
  note t4 = malformed_and_blank_lines[of "loader0\<lparr>num_mappings := 10000\<rparr>" "'' \<newline>''"
                                        "[Line ''80,TCP,web\<newline>'']"]
  from t1 h p1 have c1: "load_loop (Line ''x,y\<newline>'' # [Line ''80,TCP,web\<newline>'']) loader0
       = load_loop [Line ''80,TCP,web\<newline>'']
           (loader0\<lparr>printed := printed loader0 @ [''Skipping bad line: '' @ strip ''x,y\<newline>'']\<rparr>)"
    by blast
  from t2 h s2 have c2: "load_loop (Line '' \<newline>'' # [Line ''80,TCP,web\<newline>'']) loader0
       = load_loop [Line ''80,TCP,web\<newline>''] loader0"
    by blast
  from t3 h p3 have c3: "load_loop (Line ''http,tcp,web\<newline>'' # [Line ''80,TCP,web\<newline>'']) loader0
       = load_loop [Line ''80,TCP,web\<newline>'']
           (loader0\<lparr>printed := printed loader0
                        @ [''Skipping bad line: '' @ strip ''http,tcp,web\<newline>'']\<rparr>)"
    by blast
  from t4 g have c4: "load_loop (Line '' \<newline>'' # [Line ''80,TCP,web\<newline>''])
          (loader0\<lparr>num_mappings := 10000\<rparr>)
       = (None, loader0\<lparr>num_mappings := 10000\<rparr>
                  \<lparr>printed := printed (loader0\<lparr>num_mappings := 10000\<rparr>)
                              @ [''Warning: Reached 10000 mapping limit'']\<rparr>)"
    by blast
  from h g c1 c2 c3 c4 show ?thesis by blast
qed

subsection \<open>The report\<close>

lemma is_ascii_append [simp]: "is_ascii (a @ b) \<longleftrightarrow> is_ascii a \<and> is_ascii b"
  by (simp add: is_ascii_def)

lemma is_ascii_Cons: "is_ascii (c # s) \<longleftrightarrow> of_char c < (128::nat) \<and> is_ascii s"
  by (simp add: is_ascii_def)

lemma is_ascii_digit: "n < 10 \<Longrightarrow> is_ascii [char_of (48 + (n::nat))]"
  by (simp add: is_ascii_def)

lemma is_ascii_str_digits: "is_ascii (str_digits n)"
proof (induction n rule: str_digits.induct)
  case (1 n)
  show ?case
  proof (cases "n < 10")
    case True
    then have "nat n < 10" by simp
    then have "is_ascii [char_of (48 + nat n)]" by (rule is_ascii_digit)
    with True show ?thesis by (subst str_digits.simps) simp
  next
    case False
    have "nat (n mod 10) < 10" by simp
    then have "is_ascii [char_of (48 + nat (n mod 10))]" by (rule is_ascii_digit)
    with False 1 show ?thesis by (subst str_digits.simps) simp
  qed
qed

lemma is_ascii_str_int: "is_ascii (str_int i)"
  by (simp add: str_int_def is_ascii_Cons is_ascii_str_digits)

lemma is_ascii_nl: "is_ascii nl"
  by (simp add: nl_def is_ascii_def)

lemma is_ascii_report_row: "is_ascii (fst kc) \<Longrightarrow> is_ascii (report_row kc)"
  by (simp add: report_row_def is_ascii_str_int is_ascii_nl is_ascii_Cons)

lemma is_ascii_headers:
  "is_ascii (''Tag Counts:'' @ nl)" "is_ascii (''Tag,Count'' @ nl)"
  "is_ascii (nl @ ''Port/Protocol Combination Counts:'' @ nl)"
  "is_ascii (''Port,Protocol,Count'' @ nl)"
  by code_simp+

lemma write_all_ascii:
  "\<forall>s\<in>set ss. is_ascii s \<Longrightarrow> write_all ss acc = (acc @ concat ss, None)"
  by (induction ss arbitrary: acc) simp_all

lemma report_writes_ascii:
  assumes "\<forall>kc\<in>set (tag_count p). is_ascii (fst kc)"
    and "\<forall>kc\<in>set (traffic_count p). is_ascii (fst kc)"
  shows "\<forall>s\<in>set (report_writes p). is_ascii s"
  using assms is_ascii_headers
  by (auto simp: report_writes_def is_ascii_report_row simp del: is_ascii_append)

lemma concat_report_writes:
  "concat (report_writes p) = report_text (sort (tag_count p)) (sort (traffic_count p))"
  by (simp add: report_writes_def report_text_def)

lemma sorted_pairs_keys:
  fixes xs :: "(string \<times> int) list"
  assumes "sorted xs"
  shows "sorted (map fst xs)"
proof -
  have "sorted_wrt (\<lambda>x y. fst x \<le> fst y) xs"
    using assms by (rule sorted_wrt_mono_rel[rotated]) (auto simp: less_eq_prod_def)
  then show ?thesis by (simp add: sorted_map)
qed

text \<open>
  Claim C7. When every key is 7-bit text, the report writer produces exactly: the line
  \<open>Tag Counts:\<close>, the line \<open>Tag,Count\<close>, one line \<open>tag,count\<close> for each entry of the
  tag counts, a blank line, the line \<open>Port/Protocol Combination Counts:\<close>, the line
  \<open>Port,Protocol,Count\<close>, and one line \<open>key,count\<close> for each entry of the traffic
  counts, whose key is port, comma, protocol. The rows of each section are the entries of
  the dictionary, each once, in ascending lexicographic order of the key as a string.
  With both dictionaries empty the five fixed lines are all there is.
\<close>

theorem report_layout:
  assumes "\<forall>kc\<in>set (tag_count p). is_ascii (fst kc)"
    and "\<forall>kc\<in>set (traffic_count p). is_ascii (fst kc)"
  shows "write_report p = (report_text (sort (tag_count p)) (sort (traffic_count p)), None)
       \<and> mset (sort (tag_count p)) = mset (tag_count p)
       \<and> sorted (map fst (sort (tag_count p)))
       \<and> mset (sort (traffic_count p)) = mset (traffic_count p)
       \<and> sorted (map fst (sort (traffic_count p)))
       \<and> (tag_count p = [] \<and> traffic_count p = [] \<longrightarrow>
            write_report p
              = (''Tag Counts:\<newline>Tag,Count\<newline>\<newline>Port/Protocol Combination Counts:\<newline>Port,Protocol,Count\<newline>'',
                 None))"
proof -
  have w: "write_report p = (report_text (sort (tag_count p)) (sort (traffic_count p)), None)"
    using write_all_ascii[OF report_writes_ascii[OF assms], of "[]"]
    by (simp add: write_report_def concat_report_writes)
  have e: "report_text [] []
             = ''Tag Counts:\<newline>Tag,Count\<newline>\<newline>Port/Protocol Combination Counts:\<newline>Port,Protocol,Count\<newline>''"
    by code_simp
  have "tag_count p = [] \<and> traffic_count p = [] \<longrightarrow>
            write_report p
              = (''Tag Counts:\<newline>Tag,Count\<newline>\<newline>Port/Protocol Combination Counts:\<newline>Port,Protocol,Count\<newline>'',
                 None)"
    using w e by auto
  then show ?thesis
    using w sorted_pairs_keys[of "sort (tag_count p)"]
          sorted_pairs_keys[of "sort (traffic_count p)"]
    by simp
qed

theorem report_layout_witness:
  "is_ascii ''web'' \<and> is_ascii ''Untagged''
   \<and> is_ascii ''80,tcp'' \<and> is_ascii ''2,tcp'' \<and> is_ascii ''10,tcp''
   \<and> write_report \<lparr>lookup_dict = [], tag_count = [(''web'', 2), (''Untagged'', 3)],
        traffic_count = [(''80,tcp'', 2), (''2,tcp'', 1), (''10,tcp'', 2)]\<rparr>
       = (''Tag Counts:\<newline>Tag,Count\<newline>Untagged,3\<newline>web,2\<newline>\<newline>Port/Protocol Combination Counts:\<newline>Port,Protocol,Count\<newline>10,tcp,2\<newline>2,tcp,1\<newline>80,tcp,2\<newline>'',
          None)"
proof -
  have a1: "is_ascii ''web''" "is_ascii ''Untagged''" "is_ascii ''80,tcp''" "is_ascii ''2,tcp''"
    "is_ascii ''10,tcp''"
    by code_simp+
  have h1: "\<forall>kc\<in>set (tag_count \<lparr>lookup_dict = [], tag_count = [(''web'', 2), (''Untagged'', 3)],
        traffic_count = [(''80,tcp'', 2), (''2,tcp'', 1), (''10,tcp'', 2)]\<rparr>). is_ascii (fst kc)"
    using a1 by simp
  have h2: "\<forall>kc\<in>set (traffic_count \<lparr>lookup_dict = [], tag_count = [(''web'', 2), (''Untagged'', 3)],
        traffic_count = [(''80,tcp'', 2), (''2,tcp'', 1), (''10,tcp'', 2)]\<rparr>). is_ascii (fst kc)"
    using a1 by simp
  have v: "report_text
             (sort (tag_count \<lparr>lookup_dict = [], tag_count = [(''web'', 2), (''Untagged'', 3)],
                traffic_count = [(''80,tcp'', 2), (''2,tcp'', 1), (''10,tcp'', 2)]\<rparr>))
             (sort (traffic_count \<lparr>lookup_dict = [], tag_count = [(''web'', 2), (''Untagged'', 3)],
                traffic_count = [(''80,tcp'', 2), (''2,tcp'', 1), (''10,tcp'', 2)]\<rparr>))
       = ''Tag Counts:\<newline>Tag,Count\<newline>Untagged,3\<newline>web,2\<newline>\<newline>Port/Protocol Combination Counts:\<newline>Port,Protocol,Count\<newline>10,tcp,2\<newline>2,tcp,1\<newline>80,tcp,2\<newline>''"
    by code_simp
  note t = report_layout[OF h1 h2, unfolded v]
  from t a1 show ?thesis by blast
qed

end
